(* ===== verification/Prelude.thy ===== *)
theory Prelude
  imports Main "HOL-Library.Word"
begin

unbundle bit_operations_syntax

text \<open>
  Shared vocabulary of the development: the machine integers of the target (a 32 bit ARM,
  so \<open>int\<close>, \<open>unsigned\<close>, \<open>unsigned long\<close> and \<open>size_t\<close> are all 32 bits wide), the error
  numbers the drivers return, the ways kernel C code can go wrong (\<open>fault\<close>), sequencing of
  computations that may fault, byte-range accesses to memory, and the lemma collections.
\<close>

section \<open>Machine integers and error numbers\<close>

type_synonym u8 = "8 word"
type_synonym u16 = "16 word"
type_synonym u32 = "32 word"
type_synonym u64 = "64 word"

abbreviation ENOENT :: int where "ENOENT \<equiv> 2"
abbreviation EIO :: int where "EIO \<equiv> 5"
abbreviation ENXIO :: int where "ENXIO \<equiv> 6"
abbreviation EAGAIN :: int where "EAGAIN \<equiv> 11"
abbreviation ENOMEM :: int where "ENOMEM \<equiv> 12"
abbreviation EFAULT :: int where "EFAULT \<equiv> 14"
abbreviation EBUSY :: int where "EBUSY \<equiv> 16"
abbreviation ENODEV :: int where "ENODEV \<equiv> 19"
abbreviation EINVAL :: int where "EINVAL \<equiv> 22"
abbreviation EADDRINUSE :: int where "EADDRINUSE \<equiv> 98"
abbreviation ETIMEDOUT :: int where "ETIMEDOUT \<equiv> 110"
abbreviation ECONNREFUSED :: int where "ECONNREFUSED \<equiv> 111"
abbreviation EREMOTEIO :: int where "EREMOTEIO \<equiv> 121"

section \<open>Faults\<close>

text \<open>
  What the C code does where its behaviour is undefined or the kernel oopses is a value of
  the model. \<open>OutOfFuel\<close> is not a behaviour of the code: it marks a polling loop cut off
  before it ended, and the theorems bound the fuel that avoids it.
\<close>

datatype fault = NullDeref | OutOfBounds | UseAfterFree | DivByZero | OutOfFuel

fun ebind :: "'e + 'a \<Rightarrow> ('a \<Rightarrow> 'e + 'b) \<Rightarrow> 'e + 'b" where
  "ebind (Inl e) f = Inl e"
| "ebind (Inr a) f = f a"

lemma ebind_eq_Inr: "ebind m f = Inr b \<longleftrightarrow> (\<exists>a. m = Inr a \<and> f a = Inr b)"
  by (cases m) auto

lemma ebind_Inr_right [simp]: "ebind m Inr = m"
  by (cases m) auto

lemma ebind_assoc: "ebind (ebind m f) g = ebind m (\<lambda>a. ebind (f a) g)"
  by (cases m) auto

lemma ebind_cong [fundef_cong]:
  "m = m' \<Longrightarrow> (\<And>a. m' = Inr a \<Longrightarrow> f a = f' a) \<Longrightarrow> ebind m f = ebind m' f'"
  by (cases m') auto

section \<open>Byte ranges\<close>

text \<open>
  An array access of C: \<open>get\<close> and \<open>put\<close> of one element, \<open>load\<close> and \<open>store\<close> of a range
  (\<open>memcpy\<close>). Outside the object the result is the fault.
\<close>

definition get :: "'a list \<Rightarrow> nat \<Rightarrow> fault + 'a" where
  "get xs i = (if i < length xs then Inr (xs ! i) else Inl OutOfBounds)"

definition put :: "'a list \<Rightarrow> nat \<Rightarrow> 'a \<Rightarrow> fault + 'a list" where
  "put xs i x = (if i < length xs then Inr (xs[i := x]) else Inl OutOfBounds)"

definition load :: "'a list \<Rightarrow> nat \<Rightarrow> nat \<Rightarrow> fault + 'a list" where
  "load xs off n = (if off + n \<le> length xs then Inr (take n (drop off xs)) else Inl OutOfBounds)"

definition overwrite :: "'a list \<Rightarrow> nat \<Rightarrow> 'a list \<Rightarrow> 'a list" where
  "overwrite xs off ys = take off xs @ ys @ drop (off + length ys) xs"

definition store :: "'a list \<Rightarrow> nat \<Rightarrow> 'a list \<Rightarrow> fault + 'a list" where
  "store xs off ys =
     (if off + length ys \<le> length xs then Inr (overwrite xs off ys) else Inl OutOfBounds)"

lemma get_in [simp]: "i < length xs \<Longrightarrow> get xs i = Inr (xs ! i)"
  by (simp add: get_def)

lemma put_in [simp]: "i < length xs \<Longrightarrow> put xs i x = Inr (xs[i := x])"
  by (simp add: put_def)

lemma length_overwrite [simp]:
  "off + length ys \<le> length xs \<Longrightarrow> length (overwrite xs off ys) = length xs"
  by (simp add: overwrite_def)

lemma nth_overwrite:
  "off + length ys \<le> length xs \<Longrightarrow> i < length xs \<Longrightarrow>
    overwrite xs off ys ! i = (if off \<le> i \<and> i < off + length ys then ys ! (i - off) else xs ! i)"
  by (auto simp: overwrite_def nth_append min_def not_less)

lemma load_overwrite_same:
  "off + length ys \<le> length xs \<Longrightarrow> load (overwrite xs off ys) off (length ys) = Inr ys"
  by (simp add: load_def overwrite_def)

lemma load_overwrite_disjoint:
  assumes "off + length ys \<le> length xs" and "o' + n \<le> off \<or> off + length ys \<le> o'"
  shows "load (overwrite xs off ys) o' n = load xs o' n"
proof -
  have "take n (drop o' (overwrite xs off ys)) = take n (drop o' xs)"
    by (rule nth_equalityI) (use assms in \<open>auto simp: nth_overwrite\<close>)
  with assms(1) show ?thesis by (simp add: load_def)
qed

lemma overwrite_update:
  "p < length xs \<Longrightarrow> overwrite (xs[p := b]) (Suc p) ys = overwrite xs p (b # ys)"
  by (simp add: overwrite_def take_Suc_conv_app_nth)

lemma overwrite_nil [simp]: "overwrite xs p [] = xs"
  by (simp add: overwrite_def)

lemma take_overwrite:
  "off + length ys \<le> length xs \<Longrightarrow> take (off + length ys) (overwrite xs off ys) = take off xs @ ys"
  by (simp add: overwrite_def)

section \<open>Word lemmas\<close>

lemma unat_of_nat_u32: "n < 2 ^ 32 \<Longrightarrow> unat (of_nat n :: u32) = n"
  by (simp add: unsigned_of_nat take_bit_nat_eq_self)

lemma unat_ucast_16_32 [simp]: "unat (ucast (x :: u16) :: u32) = unat x"
  by (simp add: unsigned_ucast_eq take_bit_nat_eq_self less_le_trans [OF unsigned_less])

lemma unat_ucast_8_32 [simp]: "unat (ucast (x :: u8) :: u32) = unat x"
  by (simp add: unsigned_ucast_eq take_bit_nat_eq_self less_le_trans [OF unsigned_less])

lemma ucast_8_32_8 [simp]: "ucast (ucast (x :: u8) :: u32) = x"
  by (simp add: ucast_down_ucast_id is_down)

lemma unat_u8_less: "unat (b :: u8) < 256"
  using unsigned_less [of b] by simp

lemma unat_plus_1_less:
  assumes "x < (y :: 'a::len word)"
  shows "unat (x + 1) = Suc (unat x)"
proof -
  from assms have "unat x < unat y" by (simp add: word_less_nat_alt)
  then have "Suc (unat x) < 2 ^ LENGTH('a)"
    using unsigned_less [of y] by (intro le_less_trans [OF Suc_leI])
  then show ?thesis by (simp add: unat_word_ariths)
qed

text \<open>Storing a negative error number in an \<open>unsigned int\<close> and reading it back as \<open>int\<close>.\<close>

lemma sint_word_of_int_errno:
  "- (2 ^ 31) \<le> i \<Longrightarrow> i < 2 ^ 31 \<Longrightarrow> sint (word_of_int i :: u32) = i"
  by (simp add: sint_sbintrunc' signed_take_bit_int_eq_self)

section \<open>Lists\<close>

lemma last_position: "Suc k = length xs \<Longrightarrow> xs ! k = last xs \<and> drop k xs = [last xs]"
  by (cases xs rule: rev_cases) auto

lemma update_last_id [simp]: "xs[length xs - Suc 0 := last xs] = xs"
  by (cases xs rule: rev_cases) auto

lemma list_all_update: "list_all P xs \<Longrightarrow> P x \<Longrightarrow> list_all P (xs[i := x])"
  using set_update_subset_insert [of xs i x] by (auto simp: list_all_iff)

end
