(* ===== verification/I2C_Controller.thy ===== *)
theory I2C_Controller
  imports Prelude
begin

text \<open>
  The S3C2440 I2C controller driver, \<open>i2c/bus_drv/i2c-s3c2440.c\<close>, part one: registers, the
  driver's state, the register helpers and the interrupt state machine
  (\<open>i2c_s3c_irq_nextbyte\<close> and what it calls).

  The hardware is a parameter: \<open>hw r k\<close> is the value the controller presents to the \<open>k\<close>-th
  read of register \<open>r\<close>. Every register read advances the count of that register, every
  register write, delay and wake-up is appended to the \<open>trace\<close> of the driver's state. Nothing is
  assumed of the values read.

  The file under \<open>src/\<close> is an unfinished transcription that does not compile. Where a
  token is garbled the model takes the only reading the surrounding code leaves:
  \<open>msg_idex\<close> is \<open>msg_idx\<close> (line 176), \<open>tmp $= ~S3C2410-S3C2410_IICCON_IRQPEND\<close> is
  \<open>tmp &= ~S3C2410_IICCON_IRQPEND\<close> (line 532), \<open>+_\<close> is \<open>+\<close> (line 495), \<open>set_master\<close> (line 683) and
  \<open>disable_bus\<close> (line 723) are the functions defined above them, and the structure has the
  fields \<open>regs\<close> and \<open>wait\<close> that the code uses.
\<close>

named_theorems i2c_consts \<open>values of the register bit masks\<close>

section \<open>Registers and flags\<close>

datatype ioreg = IICCON | IICSTAT | IICADD | IICDS | IICLC

fun reg_offset :: "ioreg \<Rightarrow> u32" where
  "reg_offset IICCON = 0x00"
| "reg_offset IICSTAT = 0x04"
| "reg_offset IICADD = 0x08"
| "reg_offset IICDS = 0x0c"
| "reg_offset IICLC = 0x10"

definition IICCON_ACKEN :: u32 where "IICCON_ACKEN = push_bit 7 1"
definition IICCON_IRQEN :: u32 where "IICCON_IRQEN = push_bit 5 1"
definition IICCON_IRQPEND :: u32 where "IICCON_IRQPEND = push_bit 4 1"
definition IICSTAT_MASTER_RX :: u32 where "IICSTAT_MASTER_RX = push_bit 6 2"
definition IICSTAT_MASTER_TX :: u32 where "IICSTAT_MASTER_TX = push_bit 6 3"
definition IICSTAT_START :: u32 where "IICSTAT_START = push_bit 5 1"
definition IICSTAT_BUSBUSY :: u32 where "IICSTAT_BUSBUSY = push_bit 5 1"
definition IICSTAT_TXRXEN :: u32 where "IICSTAT_TXRXEN = push_bit 4 1"
definition IICSTAT_ARBITR :: u32 where "IICSTAT_ARBITR = push_bit 3 1"
definition IICSTAT_LASTBIT :: u32 where "IICSTAT_LASTBIT = push_bit 0 1"
definition QUIRK_S3C2440 :: u32 where "QUIRK_S3C2440 = push_bit 0 1"
definition QUIRK_HDMIPHY :: u32 where "QUIRK_HDMIPHY = push_bit 1 1"
definition QUIRK_NO_GPIO :: u32 where "QUIRK_NO_GPIO = push_bit 2 1"
definition QUIRK_POLL :: u32 where "QUIRK_POLL = push_bit 3 1"

text \<open>Message flags of \<open>linux/i2c.h\<close>.\<close>

definition I2C_M_RD :: u16 where "I2C_M_RD = 0x0001"
definition I2C_M_NOSTART :: u16 where "I2C_M_NOSTART = 0x4000"
definition I2C_M_REV_DIR_ADDR :: u16 where "I2C_M_REV_DIR_ADDR = 0x2000"
definition I2C_M_IGNORE_NAK :: u16 where "I2C_M_IGNORE_NAK = 0x1000"
definition I2C_M_RECV_LEN :: u16 where "I2C_M_RECV_LEN = 0x0400"

lemmas i2c_const_defs [i2c_consts] =
  IICCON_ACKEN_def IICCON_IRQEN_def IICCON_IRQPEND_def IICSTAT_MASTER_RX_def
  IICSTAT_MASTER_TX_def IICSTAT_START_def IICSTAT_BUSBUSY_def IICSTAT_TXRXEN_def
  IICSTAT_ARBITR_def IICSTAT_LASTBIT_def QUIRK_S3C2440_def QUIRK_HDMIPHY_def
  QUIRK_NO_GPIO_def QUIRK_POLL_def I2C_M_RD_def I2C_M_NOSTART_def I2C_M_REV_DIR_ADDR_def
  I2C_M_IGNORE_NAK_def I2C_M_RECV_LEN_def

text \<open>The C test \<open>x & flag\<close>.\<close>

abbreviation has :: "'a::len word \<Rightarrow> 'a word \<Rightarrow> bool" where
  "has x flag \<equiv> x AND flag \<noteq> 0"

section \<open>State\<close>

datatype i2c_state = STATE_IDLE | STATE_START | STATE_READ | STATE_WRITE | STATE_STOP

record i2c_msg =
  msg_addr :: u16
  msg_flags :: u16
  msg_len :: u16
  msg_buf :: "u8 list"

text \<open>What the driver does to its environment, in order.\<close>

datatype io = W ioreg u32 | Ndelay u32 | Usleep nat nat | Msleep nat | Udelay nat | WakeUp
  | ClkEnable | ClkDisable

text \<open>
  \<open>msg\<close> is the driver's pointer into the array \<open>msgs\<close> its caller passed: \<open>None\<close> is the null
  pointer, \<open>Some k\<close> points at the \<open>k\<close>-th message. The buffer of a message is the memory its
  \<open>buf\<close> pointer may access; its length can differ from \<open>len\<close>.
\<close>

record s3c24xx_i2c =
  quirks :: u32
  suspended :: bool
  msgs :: "i2c_msg list"
  msg :: "nat option"
  msg_num :: u32
  msg_idx :: u32
  msg_ptr :: u32
  tx_setup :: u32
  state :: i2c_state
  nreads :: "ioreg \<Rightarrow> nat"
  trace :: "io list"

type_synonym hw = "ioreg \<Rightarrow> nat \<Rightarrow> u32"

definition readl :: "hw \<Rightarrow> ioreg \<Rightarrow> s3c24xx_i2c \<Rightarrow> u32 \<times> s3c24xx_i2c" where
  "readl hw r s = (hw r (nreads s r), s\<lparr>nreads := (nreads s)(r := Suc (nreads s r))\<rparr>)"

definition emit :: "io \<Rightarrow> s3c24xx_i2c \<Rightarrow> s3c24xx_i2c" where
  "emit e s = s\<lparr>trace := trace s @ [e]\<rparr>"

abbreviation writel :: "u32 \<Rightarrow> ioreg \<Rightarrow> s3c24xx_i2c \<Rightarrow> s3c24xx_i2c" where
  "writel v r \<equiv> emit (W r v)"

text \<open>Dereferencing \<open>i2c->msg\<close>, and storing to the message it points at.\<close>

definition cur_msg :: "s3c24xx_i2c \<Rightarrow> fault + i2c_msg" where
  "cur_msg s = (case msg s of None \<Rightarrow> Inl NullDeref | Some k \<Rightarrow> get (msgs s) k)"

definition set_cur_msg :: "i2c_msg \<Rightarrow> s3c24xx_i2c \<Rightarrow> s3c24xx_i2c" where
  "set_cur_msg m s = (case msg s of None \<Rightarrow> s | Some k \<Rightarrow> s\<lparr>msgs := (msgs s)[k := m]\<rparr>)"

section \<open>Register helpers\<close>

definition s3c24xx_i2c_master_complete :: "s3c24xx_i2c \<Rightarrow> int \<Rightarrow> s3c24xx_i2c" where
  "s3c24xx_i2c_master_complete s ret =
     (let s = s\<lparr>msg_ptr := 0, msg := None, msg_idx := msg_idx s + 1, msg_num := 0\<rparr>;
          s = (if ret \<noteq> 0 then s\<lparr>msg_idx := word_of_int ret\<rparr> else s)
      in if \<not> has (quirks s) QUIRK_POLL then emit WakeUp s else s)"

definition s3c24xx_i2c_disable_ack :: "hw \<Rightarrow> s3c24xx_i2c \<Rightarrow> s3c24xx_i2c" where
  "s3c24xx_i2c_disable_ack hw s =
     (let (tmp, s) = readl hw IICCON s in writel (tmp AND NOT IICCON_ACKEN) IICCON s)"

definition s3c24xx_i2c_enable_ack :: "hw \<Rightarrow> s3c24xx_i2c \<Rightarrow> s3c24xx_i2c" where
  "s3c24xx_i2c_enable_ack hw s =
     (let (tmp, s) = readl hw IICCON s in writel (tmp OR IICCON_ACKEN) IICCON s)"

definition s3c24xx_i2c_disable_irq :: "hw \<Rightarrow> s3c24xx_i2c \<Rightarrow> s3c24xx_i2c" where
  "s3c24xx_i2c_disable_irq hw s =
     (let (tmp, s) = readl hw IICCON s in writel (tmp AND NOT IICCON_IRQEN) IICCON s)"

definition s3c24xx_i2c_enable_irq :: "hw \<Rightarrow> s3c24xx_i2c \<Rightarrow> s3c24xx_i2c" where
  "s3c24xx_i2c_enable_irq hw s =
     (let (tmp, s) = readl hw IICCON s in writel (tmp OR IICCON_IRQEN) IICCON s)"

text \<open>\<open>is_ack\<close>: at most 50 polls, 1 to 2 ms apart; \<open>IICSTAT\<close> is read only once the interrupt is pending.\<close>

primrec is_ack_loop :: "nat \<Rightarrow> hw \<Rightarrow> s3c24xx_i2c \<Rightarrow> bool \<times> s3c24xx_i2c" where
  "is_ack_loop 0 hw s = (False, s)"
| "is_ack_loop (Suc tries) hw s =
     (let (con, s) = readl hw IICCON s in
      if has con IICCON_IRQPEND
      then (let (st, s) = readl hw IICSTAT s in
            if \<not> has st IICSTAT_LASTBIT then (True, s)
            else is_ack_loop tries hw (emit (Usleep 1000 2000) s))
      else is_ack_loop tries hw (emit (Usleep 1000 2000) s))"

definition is_ack :: "hw \<Rightarrow> s3c24xx_i2c \<Rightarrow> bool \<times> s3c24xx_i2c" where
  "is_ack hw s = is_ack_loop 50 hw s"

definition s3c24xx_i2c_stop :: "hw \<Rightarrow> s3c24xx_i2c \<Rightarrow> int \<Rightarrow> s3c24xx_i2c" where
  "s3c24xx_i2c_stop hw s ret =
     (let (iicstat, s) = readl hw IICSTAT s;
          iicstat = (if has (quirks s) QUIRK_HDMIPHY then iicstat AND NOT IICSTAT_TXRXEN
                     else iicstat AND NOT IICSTAT_START);
          s = writel iicstat IICSTAT s;
          s = s\<lparr>state := STATE_STOP\<rparr>;
          s = s3c24xx_i2c_master_complete s ret
      in s3c24xx_i2c_disable_irq hw s)"

section \<open>Where the transfer stands\<close>

definition is_lastmsg :: "s3c24xx_i2c \<Rightarrow> bool" where
  "is_lastmsg s \<longleftrightarrow> msg_num s - 1 \<le> msg_idx s"

definition is_msglast :: "s3c24xx_i2c \<Rightarrow> fault + bool" where
  "is_msglast s = ebind (cur_msg s) (\<lambda>m.
     Inr (if has (msg_flags m) I2C_M_RECV_LEN \<and> msg_len m = 1 then False
          else msg_ptr s = ucast (msg_len m) - 1))"

definition is_msgend :: "s3c24xx_i2c \<Rightarrow> fault + bool" where
  "is_msgend s = ebind (cur_msg s) (\<lambda>m. Inr (ucast (msg_len m) \<le> msg_ptr s))"

text \<open>
  The writes of a start: direction and address byte of a message. \<open>writeb\<close> truncates to a byte.
\<close>

abbreviation writeb :: "u8 \<Rightarrow> ioreg \<Rightarrow> s3c24xx_i2c \<Rightarrow> s3c24xx_i2c" where
  "writeb v r \<equiv> emit (W r (ucast v))"

definition start_bits :: "i2c_msg \<Rightarrow> u32 \<times> u32" where
  "start_bits m =
     (let addr = push_bit 1 (ucast (msg_addr m) AND 0x7f :: u32);
          stat = 0 OR IICSTAT_TXRXEN;
          (stat, addr) = (if has (msg_flags m) I2C_M_RD then (stat OR IICSTAT_MASTER_RX, addr OR 1)
                          else (stat OR IICSTAT_MASTER_TX, addr));
          addr = (if has (msg_flags m) I2C_M_REV_DIR_ADDR then addr XOR 1 else addr)
      in (stat, addr))"

text \<open>
  \<open>s3c24xx_i2c_message_start\<close> and \<open>i2c_s3c_irq_nextbyte\<close> call each other: a start on a
  controller with \<open>QUIRK_POLL\<close> runs the state machine in a loop, and the state machine starts the
  next message. The polling loop is a parameter (\<open>poll\<close>) of both, and \<open>poll_loop\<close> below
  ties the knot.
\<close>

type_synonym poll = "u32 \<Rightarrow> s3c24xx_i2c \<Rightarrow> fault + s3c24xx_i2c"

definition s3c24xx_i2c_message_start ::
  "poll \<Rightarrow> hw \<Rightarrow> s3c24xx_i2c \<Rightarrow> i2c_msg \<Rightarrow> fault + s3c24xx_i2c" where
  "s3c24xx_i2c_message_start poll hw s m =
     (let (stat, addr) = start_bits m;
          s = s3c24xx_i2c_enable_ack hw s;
          (iiccon, s) = readl hw IICCON s;
          s = writel stat IICSTAT s;
          s = writeb (ucast addr) IICDS s;
          s = emit (Ndelay (tx_setup s)) s;
          s = writel iiccon IICCON s;
          stat = stat OR IICSTAT_START;
          s = writel stat IICSTAT s
      in if has (quirks s) QUIRK_POLL then poll stat s else Inr s)"

section \<open>The state machine\<close>

text \<open>
  \<open>retry_write\<close> is the code from the label of that name to the \<open>break\<close>: send the next byte of
  the message, or go to the next message, or stop. A message flagged \<open>I2C_M_NOSTART\<close> continues
  at the label. The measure is the number of messages left; it is 0 once \<open>stop\<close> has set the
  message pointer to null (where the code dereferences it again and faults).
\<close>

definition next_msg :: "s3c24xx_i2c \<Rightarrow> s3c24xx_i2c" where
  "next_msg s = s\<lparr>msg_ptr := 0, msg_idx := msg_idx s + 1, msg := map_option Suc (msg s)\<rparr>"

definition msgs_left :: "s3c24xx_i2c \<Rightarrow> nat" where
  "msgs_left s = (case msg s of None \<Rightarrow> 0 | Some _ \<Rightarrow> Suc (unat (msg_num s - 1) - unat (msg_idx s)))"

lemma emit_sel [simp]:
  "quirks (emit e s) = quirks s" "suspended (emit e s) = suspended s" "msgs (emit e s) = msgs s"
  "msg (emit e s) = msg s" "msg_num (emit e s) = msg_num s" "msg_idx (emit e s) = msg_idx s"
  "msg_ptr (emit e s) = msg_ptr s" "tx_setup (emit e s) = tx_setup s" "state (emit e s) = state s"
  "nreads (emit e s) = nreads s" "trace (emit e s) = trace s @ [e]"
  by (simp_all add: emit_def)

lemma stop_msg [simp]: "msg (s3c24xx_i2c_stop hw s ret) = None"
  by (simp add: s3c24xx_i2c_stop_def s3c24xx_i2c_master_complete_def
      s3c24xx_i2c_disable_irq_def readl_def Let_def)

lemma next_msg_left:
  "\<not> is_lastmsg s \<Longrightarrow> msg s \<noteq> None \<Longrightarrow> msgs_left (next_msg s) < msgs_left s"
proof -
  assume nl: "\<not> is_lastmsg s" and m: "msg s \<noteq> None"
  from nl have lt: "msg_idx s < msg_num s - 1" by (simp add: is_lastmsg_def)
  then have "unat (msg_idx s + 1) = Suc (unat (msg_idx s))"
    by (rule unat_plus_1_less)
  moreover from lt have "unat (msg_idx s) < unat (msg_num s - 1)"
    by (simp add: word_less_nat_alt)
  ultimately show ?thesis using m by (auto simp: msgs_left_def next_msg_def)
qed

lemma cur_msg_Inr_msg: "cur_msg s = Inr m \<Longrightarrow> msg s \<noteq> None"
  by (auto simp: cur_msg_def split: option.splits)

function retry_write :: "poll \<Rightarrow> hw \<Rightarrow> s3c24xx_i2c \<Rightarrow> fault + s3c24xx_i2c" where
  "retry_write poll hw s =
     ebind (cur_msg s) (\<lambda>m.
       if \<not> ucast (msg_len m) \<le> msg_ptr s
       then ebind (get (msg_buf m) (unat (msg_ptr s))) (\<lambda>byte.
              let s = s\<lparr>msg_ptr := msg_ptr s + 1\<rparr>;
                  s = writeb byte IICDS s
              in Inr (emit (Ndelay (tx_setup s)) s))
       else if \<not> is_lastmsg s
       then ebind (cur_msg (next_msg s)) (\<lambda>m'.
              if has (msg_flags m') I2C_M_NOSTART
              then (if has (msg_flags m') I2C_M_RD
                    then retry_write poll hw (s3c24xx_i2c_stop hw (next_msg s) (- EINVAL))
                    else retry_write poll hw (next_msg s))
              else ebind (s3c24xx_i2c_message_start poll hw (next_msg s) m')
                     (\<lambda>s. Inr (s\<lparr>state := STATE_START\<rparr>)))
       else Inr (s3c24xx_i2c_stop hw s 0))"
  by pat_completeness auto
termination
proof (relation "measure (\<lambda>(_, _, s). msgs_left s)", goal_cases)
  case 1
  show ?case by simp
next
  case (2 poll hw s m m')
  then have "msg s \<noteq> None" by (simp add: cur_msg_Inr_msg)
  then show ?case by (auto simp: msgs_left_def)
next
  case (3 poll hw s m m')
  then show ?case by (simp add: cur_msg_Inr_msg next_msg_left)
qed

declare retry_write.simps [simp del]

text \<open>From the label \<open>prepare_read\<close> to the \<open>break\<close>.\<close>

definition prepare_read :: "hw \<Rightarrow> s3c24xx_i2c \<Rightarrow> fault + s3c24xx_i2c" where
  "prepare_read hw s =
     ebind (is_msglast s) (\<lambda>last.
       if last then Inr (if is_lastmsg s then s3c24xx_i2c_disable_ack hw s else s)
       else ebind (is_msgend s) (\<lambda>end_of_msg.
         if end_of_msg
         then Inr (if is_lastmsg s then s3c24xx_i2c_stop hw s 0 else next_msg s)
         else Inr s))"

text \<open>\<open>case STATE_WRITE\<close>, up to its \<open>break\<close> or \<open>goto out_ack\<close>.\<close>

definition write_state :: "poll \<Rightarrow> hw \<Rightarrow> s3c24xx_i2c \<Rightarrow> u32 \<Rightarrow> fault + s3c24xx_i2c" where
  "write_state poll hw s iicstat =
     ebind (cur_msg s) (\<lambda>m.
       if \<not> has (msg_flags m) I2C_M_IGNORE_NAK \<and> has iicstat IICSTAT_LASTBIT
       then Inr (s3c24xx_i2c_stop hw s (- ECONNREFUSED))
       else retry_write poll hw s)"

text \<open>\<open>case STATE_START\<close>.\<close>

definition start_state :: "poll \<Rightarrow> hw \<Rightarrow> s3c24xx_i2c \<Rightarrow> u32 \<Rightarrow> fault + s3c24xx_i2c" where
  "start_state poll hw s iicstat =
     ebind (cur_msg s) (\<lambda>m.
       if has iicstat IICSTAT_LASTBIT \<and> \<not> has (msg_flags m) I2C_M_IGNORE_NAK
       then Inr (s3c24xx_i2c_stop hw s (- ENXIO))
       else
         let s = s\<lparr>state := (if has (msg_flags m) I2C_M_RD then STATE_READ else STATE_WRITE)\<rparr>
         in if is_lastmsg s \<and> msg_len m = 0 then Inr (s3c24xx_i2c_stop hw s 0)
            else if state s = STATE_READ then prepare_read hw s
            else write_state poll hw s iicstat)"

text \<open>
  \<open>case STATE_READ\<close>: \<open>readb\<close> keeps the low byte; with \<open>I2C_M_RECV_LEN\<close> the first byte received
  is added to the length of the message.
\<close>

definition read_state :: "hw \<Rightarrow> s3c24xx_i2c \<Rightarrow> fault + s3c24xx_i2c" where
  "read_state hw s =
     (let (ds, s) = readl hw IICDS s;
          byte = (ucast ds :: u8)
      in ebind (cur_msg s) (\<lambda>m.
           ebind (put (msg_buf m) (unat (msg_ptr s)) byte) (\<lambda>buf.
             let m = m\<lparr>msg_buf := buf\<rparr>;
                 s = s\<lparr>msg_ptr := msg_ptr s + 1\<rparr>;
                 m = (if has (msg_flags m) I2C_M_RECV_LEN \<and> msg_len m = 1
                      then m\<lparr>msg_len := msg_len m + ucast byte\<rparr> else m)
             in prepare_read hw (set_cur_msg m s))))"

text \<open>The label \<open>out_ack\<close>: clear the pending bit.\<close>

definition out_ack :: "hw \<Rightarrow> s3c24xx_i2c \<Rightarrow> s3c24xx_i2c" where
  "out_ack hw s = (let (tmp, s) = readl hw IICCON s in writel (tmp AND NOT IICCON_IRQPEND) IICCON s)"

definition i2c_s3c_irq_nextbyte ::
  "poll \<Rightarrow> hw \<Rightarrow> s3c24xx_i2c \<Rightarrow> u32 \<Rightarrow> fault + s3c24xx_i2c" where
  "i2c_s3c_irq_nextbyte poll hw s iicstat =
     (case state s of
        STATE_IDLE \<Rightarrow> Inr s
      | STATE_STOP \<Rightarrow> Inr (out_ack hw (s3c24xx_i2c_disable_irq hw s))
      | STATE_START \<Rightarrow> ebind (start_state poll hw s iicstat) (\<lambda>s. Inr (out_ack hw s))
      | STATE_WRITE \<Rightarrow> ebind (write_state poll hw s iicstat) (\<lambda>s. Inr (out_ack hw s))
      | STATE_READ \<Rightarrow> ebind (read_state hw s) (\<lambda>s. Inr (out_ack hw s)))"

text \<open>The polling loop at the end of \<open>s3c24xx_i2c_message_start\<close>, on fuel.\<close>

primrec poll_loop :: "nat \<Rightarrow> hw \<Rightarrow> poll" where
  "poll_loop 0 hw stat s = Inl OutOfFuel"
| "poll_loop (Suc n) hw stat s =
     (if msg_num s = 0 then Inr s
      else let (ack, s) = is_ack hw s in
        if \<not> ack then Inr s
        else ebind (i2c_s3c_irq_nextbyte (poll_loop n hw) hw s stat) (\<lambda>s.
               let (stat, s) = readl hw IICSTAT s in poll_loop n hw stat s))"

text \<open>The interrupt handler. Arbitration loss is only logged.\<close>

definition s3c24xx_i2c_irq :: "poll \<Rightarrow> hw \<Rightarrow> s3c24xx_i2c \<Rightarrow> fault + s3c24xx_i2c" where
  "s3c24xx_i2c_irq poll hw s =
     (let (status, s) = readl hw IICSTAT s
      in if state s = STATE_IDLE then Inr (out_ack hw s)
         else i2c_s3c_irq_nextbyte poll hw s status)"

primrec run_irqs :: "poll \<Rightarrow> hw \<Rightarrow> nat \<Rightarrow> s3c24xx_i2c \<Rightarrow> fault + s3c24xx_i2c" where
  "run_irqs poll hw 0 s = Inr s"
| "run_irqs poll hw (Suc n) s = ebind (s3c24xx_i2c_irq poll hw s) (run_irqs poll hw n)"

end
