(* ===== verification/I2C_Transfer.thy ===== *)
theory I2C_Transfer
  imports I2C_Controller
begin

text \<open>
  The S3C2440 I2C controller driver, part two: what the interrupt state machine does over a whole
  transfer. First the frame of every helper, then one lemma per kind of interrupt, then
  runs of interrupts by induction on the bytes of a message and on the messages.
\<close>

named_theorems frame \<open>which parts of the state an operation leaves alone\<close>

section \<open>Frames\<close>

text \<open>The bytes written to the data register, in order: what the driver puts on the bus.\<close>

fun ds_of :: "io \<Rightarrow> u8 list" where
  "ds_of (W IICDS v) = [ucast v]"
| "ds_of _ = []"

definition ds_writes :: "s3c24xx_i2c \<Rightarrow> u8 list" where
  "ds_writes s = concat (map ds_of (trace s))"

lemma ds_writes_emit [simp]: "ds_writes (emit e s) = ds_writes s @ ds_of e"
  by (simp add: ds_writes_def)

lemma ds_writes_update [simp]:
  "ds_writes (s\<lparr>msgs := a\<rparr>) = ds_writes s" "ds_writes (s\<lparr>msg := b\<rparr>) = ds_writes s"
  "ds_writes (s\<lparr>msg_num := c\<rparr>) = ds_writes s" "ds_writes (s\<lparr>msg_idx := c\<rparr>) = ds_writes s"
  "ds_writes (s\<lparr>msg_ptr := c\<rparr>) = ds_writes s" "ds_writes (s\<lparr>state := d\<rparr>) = ds_writes s"
  "ds_writes (s\<lparr>nreads := e\<rparr>) = ds_writes s"
  by (simp_all add: ds_writes_def)

text \<open>What a read of a register leaves: everything but the read count of that register.\<close>

lemma readl_frame [frame]:
  "quirks (snd (readl hw r s)) = quirks s" "suspended (snd (readl hw r s)) = suspended s"
  "msgs (snd (readl hw r s)) = msgs s" "msg (snd (readl hw r s)) = msg s"
  "msg_num (snd (readl hw r s)) = msg_num s" "msg_idx (snd (readl hw r s)) = msg_idx s"
  "msg_ptr (snd (readl hw r s)) = msg_ptr s" "tx_setup (snd (readl hw r s)) = tx_setup s"
  "state (snd (readl hw r s)) = state s" "ds_writes (snd (readl hw r s)) = ds_writes s"
  "nreads (snd (readl hw r s)) r' = (if r' = r then Suc (nreads s r) else nreads s r')"
  "fst (readl hw r s) = hw r (nreads s r)"
  by (simp_all add: readl_def)

text \<open>
  \<open>same s s'\<close>: an operation moved the transfer nowhere; only the registers were touched.
\<close>

definition same :: "s3c24xx_i2c \<Rightarrow> s3c24xx_i2c \<Rightarrow> bool" where
  "same s s' \<longleftrightarrow> quirks s' = quirks s \<and> suspended s' = suspended s \<and> msgs s' = msgs s \<and>
     msg s' = msg s \<and> msg_num s' = msg_num s \<and> msg_idx s' = msg_idx s \<and> msg_ptr s' = msg_ptr s \<and>
     tx_setup s' = tx_setup s \<and> state s' = state s \<and> ds_writes s' = ds_writes s \<and>
     nreads s' IICDS = nreads s IICDS"

lemma same_helpers [frame]:
  "same s (s3c24xx_i2c_disable_ack hw s)" "same s (s3c24xx_i2c_enable_ack hw s)"
  "same s (s3c24xx_i2c_disable_irq hw s)" "same s (s3c24xx_i2c_enable_irq hw s)"
  "same s (out_ack hw s)"
  by (simp_all add: same_def s3c24xx_i2c_disable_ack_def s3c24xx_i2c_enable_ack_def
      s3c24xx_i2c_disable_irq_def s3c24xx_i2c_enable_irq_def out_ack_def split_def frame)

lemmas same_simps = same_helpers [unfolded same_def]

text \<open>The state after a transfer that ended with return code \<open>ret\<close>.\<close>

definition completed :: "int \<Rightarrow> s3c24xx_i2c \<Rightarrow> s3c24xx_i2c \<Rightarrow> bool" where
  "completed ret s s' \<longleftrightarrow> quirks s' = quirks s \<and> suspended s' = suspended s \<and> msgs s' = msgs s \<and>
     msg s' = None \<and> msg_num s' = 0 \<and>
     msg_idx s' = (if ret \<noteq> 0 then word_of_int ret else msg_idx s + 1) \<and>
     tx_setup s' = tx_setup s \<and> state s' = STATE_STOP \<and> ds_writes s' = ds_writes s \<and>
     nreads s' IICDS = nreads s IICDS"

lemma stop_completed: "completed ret s (s3c24xx_i2c_stop hw s ret)"
  by (simp add: completed_def s3c24xx_i2c_stop_def s3c24xx_i2c_master_complete_def Let_def
      split_def frame same_simps)

lemma completed_same: "completed ret s t \<Longrightarrow> same t u \<Longrightarrow> completed ret s u"
  by (simp add: completed_def same_def)

lemma completed_ack: "completed ret s (out_ack hw (s3c24xx_i2c_stop hw s ret))"
  by (rule completed_same [OF stop_completed]) (rule frame)

section \<open>A start condition\<close>

definition addr_byte :: "i2c_msg \<Rightarrow> u8" where
  "addr_byte m = ucast (snd (start_bits m))"

text \<open>Without \<open>QUIRK_POLL\<close> a start only programs the controller.\<close>

lemma message_start_irq_mode:
  assumes "\<not> has (quirks s) QUIRK_POLL"
  shows "\<exists>s'. s3c24xx_i2c_message_start poll hw s m = Inr s' \<and> quirks s' = quirks s \<and>
     suspended s' = suspended s \<and> msgs s' = msgs s \<and> msg s' = msg s \<and> msg_num s' = msg_num s \<and>
     msg_idx s' = msg_idx s \<and> msg_ptr s' = msg_ptr s \<and> tx_setup s' = tx_setup s \<and>
     state s' = state s \<and> ds_writes s' = ds_writes s @ [addr_byte m] \<and>
     nreads s' IICDS = nreads s IICDS"
  using assms
  by (simp add: s3c24xx_i2c_message_start_def Let_def split_def frame same_simps addr_byte_def)

section \<open>Where a transfer stands\<close>

text \<open>
  \<open>at_msg s k p st\<close>: an interrupt-driven transfer of all messages of \<open>msgs s\<close> is at byte \<open>p\<close> of
  message \<open>k\<close>, in state \<open>st\<close>. The number of messages fits a positive \<open>int\<close>, as \<open>num\<close> does.
\<close>

definition at_msg :: "s3c24xx_i2c \<Rightarrow> nat \<Rightarrow> nat \<Rightarrow> i2c_state \<Rightarrow> bool" where
  "at_msg s k p st \<longleftrightarrow> \<not> has (quirks s) QUIRK_POLL \<and> msg s = Some k \<and>
     msg_num s = of_nat (length (msgs s)) \<and> msg_idx s = of_nat k \<and> msg_ptr s = of_nat p \<and>
     state s = st \<and> k < length (msgs s) \<and> length (msgs s) < 2 ^ 31 \<and> p < 2 ^ 31"

text \<open>\<open>advance s ds n s'\<close>: between \<open>s\<close> and \<open>s'\<close> the driver sent the bytes \<open>ds\<close> and received \<open>n\<close>.\<close>

definition advance :: "s3c24xx_i2c \<Rightarrow> u8 list \<Rightarrow> nat \<Rightarrow> s3c24xx_i2c \<Rightarrow> bool" where
  "advance s ds n s' \<longleftrightarrow> quirks s' = quirks s \<and> suspended s' = suspended s \<and>
     tx_setup s' = tx_setup s \<and> ds_writes s' = ds_writes s @ ds \<and>
     nreads s' IICDS = nreads s IICDS + n"

lemma advance_refl [simp]: "advance s [] 0 s"
  by (simp add: advance_def)

lemma advance_trans: "advance s ds n t \<Longrightarrow> advance t ds' n' u \<Longrightarrow> advance s (ds @ ds') (n + n') u"
  by (simp add: advance_def)

definition finished :: "int \<Rightarrow> s3c24xx_i2c \<Rightarrow> bool" where
  "finished ret s \<longleftrightarrow> state s = STATE_STOP \<and> msg s = None \<and> msg_num s = 0 \<and> sint (msg_idx s) = ret"

lemma of_nat_minus_1: "0 < n \<Longrightarrow> (of_nat n :: 'a::len word) - 1 = of_nat (n - 1)"
  by (simp add: of_nat_diff)

lemma of_nat_le_u32: "a < 2 ^ 32 \<Longrightarrow> b < 2 ^ 32 \<Longrightarrow> (of_nat a :: u32) \<le> of_nat b \<longleftrightarrow> a \<le> b"
  by (simp add: word_le_nat_alt unsigned_of_nat take_bit_nat_eq_self)

lemma of_nat_eq_u32: "a < 2 ^ 32 \<Longrightarrow> b < 2 ^ 32 \<Longrightarrow> (of_nat a :: u32) = of_nat b \<longleftrightarrow> a = b"
  by (metis unat_of_nat_u32)

lemma ucast_of_nat_16_32: "(ucast (x :: u16) :: u32) = of_nat (unat x)"
  by (rule word_unat_eq_iff [THEN iffD2]) (simp add: unat_of_nat_u32 less_le_trans [OF unsigned_less])

lemma unat_u16_less: "unat (x :: u16) < 2 ^ 31"
  by (rule less_le_trans [OF unsigned_less]) simp

lemma at_msg_lastmsg: "at_msg s k p st \<Longrightarrow> is_lastmsg s \<longleftrightarrow> Suc k = length (msgs s)"
proof -
  assume a: "at_msg s k p st"
  then have "0 < length (msgs s)" by (auto simp: at_msg_def)
  then have "msg_num s - 1 = of_nat (length (msgs s) - 1)"
    using a by (simp add: at_msg_def of_nat_minus_1 del: of_nat_diff)
  with a show ?thesis by (auto simp: at_msg_def is_lastmsg_def of_nat_le_u32 simp del: of_nat_diff)
qed

lemma at_msg_cur: "at_msg s k p st \<Longrightarrow> cur_msg s = Inr (msgs s ! k)"
  by (simp add: at_msg_def cur_msg_def)

lemma at_msg_ptr: "at_msg s k p st \<Longrightarrow> unat (msg_ptr s) = p"
  by (simp add: at_msg_def unat_of_nat_u32)

lemma at_msg_end: "at_msg s k p st \<Longrightarrow> ucast (msg_len (m :: i2c_msg)) \<le> msg_ptr s \<longleftrightarrow> unat (msg_len m) \<le> p"
  using unat_u16_less [of "msg_len m"]
  by (simp add: at_msg_def word_le_nat_alt unat_of_nat_u32)

lemma at_msg_last:
  "at_msg s k p st \<Longrightarrow> msg_ptr s = ucast (msg_len (m :: i2c_msg)) - 1 \<longleftrightarrow> Suc p = unat (msg_len m)"
proof -
  assume a: "at_msg s k p st"
  then have p: "msg_ptr s = of_nat p" "p < 2 ^ 31" by (simp_all add: at_msg_def)
  have "msg_ptr s = ucast (msg_len m) - 1 \<longleftrightarrow> msg_ptr s + 1 = ucast (msg_len m)"
    by (metis add_diff_cancel_right' diff_add_cancel)
  also have "msg_ptr s + 1 = of_nat (Suc p)" using p by simp
  also have "of_nat (Suc p) = (ucast (msg_len m) :: u32) \<longleftrightarrow> Suc p = unat (msg_len m)"
    using p(2) unat_u16_less [of "msg_len m"]
    by (simp only: ucast_of_nat_16_32) (rule of_nat_eq_u32; simp)
  finally show ?thesis .
qed

lemmas at_msg_facts = at_msg_lastmsg at_msg_cur at_msg_ptr at_msg_end at_msg_last

section \<open>One interrupt\<close>

lemma position_state [simp]:
  "cur_msg (s\<lparr>state := x\<rparr>) = cur_msg s" "is_lastmsg (s\<lparr>state := x\<rparr>) = is_lastmsg s"
  by (simp_all add: cur_msg_def is_lastmsg_def cong: option.case_cong)

text \<open>Every status the driver reads has the acknowledge of the slave.\<close>

definition acked :: "hw \<Rightarrow> bool" where
  "acked hw \<longleftrightarrow> (\<forall>k. \<not> has (hw IICSTAT k) IICSTAT_LASTBIT)"

lemma irq_unfold:
  "s3c24xx_i2c_irq poll hw s =
     (let t = snd (readl hw IICSTAT s) in
      if state s = STATE_IDLE then Inr (out_ack hw t)
      else i2c_s3c_irq_nextbyte poll hw t (hw IICSTAT (nreads s IICSTAT)))"
  by (simp add: s3c24xx_i2c_irq_def split_def Let_def frame)

lemma readl_stat_at_msg: "at_msg s k p st \<Longrightarrow> at_msg (snd (readl hw IICSTAT s)) k p st"
  by (simp add: at_msg_def frame)

lemma readl_stat_advance: "advance s [] 0 (snd (readl hw IICSTAT s))"
  by (simp add: advance_def frame)

text \<open>The write path, common to the states \<open>START\<close> and \<open>WRITE\<close>.\<close>

definition write_phase :: "poll \<Rightarrow> hw \<Rightarrow> s3c24xx_i2c \<Rightarrow> fault + s3c24xx_i2c" where
  "write_phase poll hw s =
     ebind (retry_write poll hw (s\<lparr>state := STATE_WRITE\<rparr>)) (\<lambda>s. Inr (out_ack hw s))"

lemma irq_write_phase:
  assumes "at_msg s k p st" "st = STATE_START \<or> st = STATE_WRITE"
    and "\<not> has (msg_flags (msgs s ! k)) I2C_M_RD"
    and "st = STATE_START \<Longrightarrow> msg_len (msgs s ! k) \<noteq> 0 \<or> Suc k < length (msgs s)"
    and "acked hw"
  shows "s3c24xx_i2c_irq poll hw s = write_phase poll hw (snd (readl hw IICSTAT s))"
proof -
  let ?t = "snd (readl hw IICSTAT s)"
  have at: "at_msg ?t k p st" using assms(1) by (rule readl_stat_at_msg)
  have st: "state ?t = st" "state s = st" using at assms(1) by (simp_all add: at_msg_def)
  have msgs: "msgs ?t = msgs s" by (simp add: frame)
  have ack: "\<not> has (hw IICSTAT (nreads s IICSTAT)) IICSTAT_LASTBIT" using assms(5) by (simp add: acked_def)
  note cur = at_msg_cur [OF at] and last = at_msg_lastmsg [OF at]
  show ?thesis
  proof (cases "st = STATE_START")
    case True
    then show ?thesis
      using assms(3,4) st ack cur last
      by (auto simp: irq_unfold i2c_s3c_irq_nextbyte_def start_state_def write_state_def
          write_phase_def Let_def msgs)
  next
    case False
    then have w: "st = STATE_WRITE" using assms(2) by simp
    then have eq: "?t\<lparr>state := STATE_WRITE\<rparr> = ?t" using st by simp
    show ?thesis
      unfolding write_phase_def eq using w st ack cur
      by (simp add: irq_unfold i2c_s3c_irq_nextbyte_def write_state_def msgs)
  qed
qed

lemma same_out_ack_advance: "advance s ds n t \<Longrightarrow> advance s ds n (out_ack hw t)"
  by (simp add: advance_def same_simps)

lemma same_out_ack_at: "at_msg s k p st \<Longrightarrow> at_msg (out_ack hw s) k p st"
  by (simp add: at_msg_def same_simps)

lemma at_msg_state: "at_msg s k p st \<Longrightarrow> at_msg (s\<lparr>state := st'\<rparr>) k p st'"
  by (simp add: at_msg_def)

text \<open>A byte of the message is left: it goes to the data register.\<close>

lemma write_phase_byte:
  assumes at: "at_msg s k p st" and p: "p < unat (msg_len (msgs s ! k))"
    and buf: "unat (msg_len (msgs s ! k)) \<le> length (msg_buf (msgs s ! k))"
  shows "\<exists>s'. write_phase poll hw s = Inr s' \<and> at_msg s' k (Suc p) STATE_WRITE \<and>
    msgs s' = msgs s \<and> advance s [msg_buf (msgs s ! k) ! p] 0 s'"
proof -
  let ?t = "s\<lparr>state := STATE_WRITE\<rparr>" and ?m = "msgs s ! k"
  let ?u = "emit (Ndelay (tx_setup s)) (writeb (msg_buf ?m ! p) IICDS (?t\<lparr>msg_ptr := msg_ptr s + 1\<rparr>))"
  have "write_phase poll hw s = Inr (out_ack hw ?u)"
    using p buf at_msg_facts [OF at_msg_state [OF at, of STATE_WRITE]]
    by (simp add: write_phase_def retry_write.simps [of poll hw ?t])
  moreover have "at_msg (out_ack hw ?u) k (Suc p) STATE_WRITE"
    using at p unat_u16_less [of "msg_len ?m"] by (simp add: at_msg_def same_simps)
  moreover have "advance s [msg_buf ?m ! p] 0 (out_ack hw ?u)" and "msgs (out_ack hw ?u) = msgs s"
    by (simp_all add: advance_def same_simps)
  ultimately show ?thesis by blast
qed

text \<open>All bytes are sent and a message follows: its start goes out.\<close>

lemma next_msg_at:
  assumes at: "at_msg s k p st" and nxt: "Suc k < length (msgs s)"
  shows "at_msg (next_msg s) (Suc k) 0 st" "advance s [] 0 (next_msg s)" "msgs (next_msg s) = msgs s"
  using assms by (simp_all add: at_msg_def next_msg_def advance_def)

lemma write_phase_next:
  assumes at: "at_msg s k p st" and p: "unat (msg_len (msgs s ! k)) \<le> p"
    and nxt: "Suc k < length (msgs s)" and start: "\<not> has (msg_flags (msgs s ! Suc k)) I2C_M_NOSTART"
  shows "\<exists>s'. write_phase poll hw s = Inr s' \<and> at_msg s' (Suc k) 0 STATE_START \<and>
    msgs s' = msgs s \<and> advance s [addr_byte (msgs s ! Suc k)] 0 s'"
proof -
  let ?t = "s\<lparr>state := STATE_WRITE\<rparr>"
  note at' = at_msg_state [OF at, of STATE_WRITE]
  have at_next: "at_msg (next_msg ?t) (Suc k) 0 STATE_WRITE"
    and msgs: "msgs (next_msg ?t) = msgs s" and adv: "advance s [] 0 (next_msg ?t)"
    using next_msg_at [OF at'] nxt by (simp_all add: advance_def)
  have poll: "\<not> has (quirks (next_msg ?t)) QUIRK_POLL" using at_next by (simp add: at_msg_def)
  obtain u where u: "s3c24xx_i2c_message_start poll hw (next_msg ?t) (msgs s ! Suc k) = Inr u"
    and at_u: "at_msg u (Suc k) 0 STATE_WRITE" and msgs_u: "msgs u = msgs s"
    and adv_u: "advance s [addr_byte (msgs s ! Suc k)] 0 u"
    using message_start_irq_mode [OF poll, of poll hw "msgs s ! Suc k"] at_next adv msgs
    by (auto simp: at_msg_def advance_def)
  have "write_phase poll hw s = Inr (out_ack hw (u\<lparr>state := STATE_START\<rparr>))"
    using at_msg_facts [OF at'] at_msg_cur [OF at_next] p nxt start u msgs
    by (simp add: write_phase_def retry_write.simps [of poll hw ?t])
  moreover have "at_msg (out_ack hw (u\<lparr>state := STATE_START\<rparr>)) (Suc k) 0 STATE_START"
    using at_u by (intro same_out_ack_at at_msg_state)
  ultimately show ?thesis
    using adv_u msgs_u by (simp add: advance_def same_simps)
qed

text \<open>All bytes of the last message are sent: stop.\<close>

lemma finished_stop:
  assumes at: "at_msg s k p st" and last: "Suc k = length (msgs s)"
  shows "finished (int (length (msgs s))) (out_ack hw (s3c24xx_i2c_stop hw s 0))"
    "advance s [] 0 (out_ack hw (s3c24xx_i2c_stop hw s 0))"
    "msgs (out_ack hw (s3c24xx_i2c_stop hw s 0)) = msgs s"
proof -
  have c: "completed 0 s (out_ack hw (s3c24xx_i2c_stop hw s 0))" by (rule completed_ack)
  have "msg_idx s + 1 = of_nat (length (msgs s))"
    using at by (simp add: at_msg_def last [symmetric])
  moreover have "sint (word_of_int (int (length (msgs s))) :: u32) = int (length (msgs s))"
    by (rule sint_word_of_int_errno) (use at in \<open>simp_all add: at_msg_def\<close>)
  ultimately show "finished (int (length (msgs s))) (out_ack hw (s3c24xx_i2c_stop hw s 0))"
    using c by (simp add: completed_def finished_def)
qed (use completed_ack [of 0 s hw] in \<open>simp_all add: completed_def advance_def\<close>)

lemma write_phase_last:
  assumes at: "at_msg s k p st" and p: "unat (msg_len (msgs s ! k)) \<le> p"
    and last: "Suc k = length (msgs s)"
  shows "\<exists>s'. write_phase poll hw s = Inr s' \<and> finished (int (length (msgs s))) s' \<and>
    msgs s' = msgs s \<and> advance s [] 0 s'"
proof -
  note at' = at_msg_state [OF at, of STATE_WRITE]
  show ?thesis
    using at_msg_facts [OF at'] finished_stop [OF at', of hw] p last
    by (simp add: write_phase_def retry_write.simps [of poll hw "s\<lparr>state := STATE_WRITE\<rparr>"] advance_def)
qed

text \<open>The read path: \<open>prepare_read\<close> before the end of the message at most turns off the acknowledge.\<close>

lemma at_msg_same: "at_msg s k p st \<Longrightarrow> same s t \<Longrightarrow> at_msg t k p st"
  by (simp add: at_msg_def same_def)

lemma same_advance: "same s t \<Longrightarrow> advance s [] 0 t"
  by (simp add: advance_def same_def)

lemma same_refl [simp]: "same s s"
  by (simp add: same_def)

lemma prepare_read_mid:
  assumes at: "at_msg s k p st" and p: "p < unat (msg_len (msgs s ! k))"
    and rl: "\<not> has (msg_flags (msgs s ! k)) I2C_M_RECV_LEN"
  shows "\<exists>s'. prepare_read hw s = Inr s' \<and> same s s'"
  using at_msg_facts [OF at] p rl
  by (cases "Suc p = unat (msg_len (msgs s ! k))"; cases "is_lastmsg s")
    (auto simp: prepare_read_def is_msglast_def is_msgend_def frame)

lemma prepare_read_end:
  assumes at: "at_msg s k p st" and p: "p = unat (msg_len (msgs s ! k))"
    and rl: "\<not> has (msg_flags (msgs s ! k)) I2C_M_RECV_LEN"
  shows "prepare_read hw s =
    Inr (if Suc k = length (msgs s) then s3c24xx_i2c_stop hw s 0 else next_msg s)"
  using at_msg_facts [OF at] p rl
  by (auto simp: prepare_read_def is_msglast_def is_msgend_def)

text \<open>The interrupt after the address byte of a read.\<close>

lemma irq_read_start:
  assumes at: "at_msg s k 0 STATE_START" and rd: "has (msg_flags (msgs s ! k)) I2C_M_RD"
    and rl: "\<not> has (msg_flags (msgs s ! k)) I2C_M_RECV_LEN"
    and len: "msg_len (msgs s ! k) \<noteq> 0" and ack: "acked hw"
  shows "\<exists>s'. s3c24xx_i2c_irq poll hw s = Inr s' \<and> at_msg s' k 0 STATE_READ \<and>
    msgs s' = msgs s \<and> advance s [] 0 s'"
proof -
  let ?t = "snd (readl hw IICSTAT s)"
  let ?u = "?t\<lparr>state := STATE_READ\<rparr>"
  have at_t: "at_msg ?t k 0 STATE_START" using at by (rule readl_stat_at_msg)
  have at_u: "at_msg ?u k 0 STATE_READ" using at_t by (rule at_msg_state)
  have msgs: "msgs ?t = msgs s" by (simp add: frame)
  have st: "state s = STATE_START" "state ?t = STATE_START" using at at_t by (simp_all add: at_msg_def)
  have "0 < unat (msg_len (msgs s ! k))" using len by (simp add: unat_gt_0)
  then obtain v where v: "prepare_read hw ?u = Inr v" "same ?u v"
    using prepare_read_mid [OF at_u, of hw] rl by (auto simp: msgs)
  have "s3c24xx_i2c_irq poll hw s = Inr (out_ack hw v)"
    using st at_msg_cur [OF at_t] rd len ack v(1)
    by (simp add: irq_unfold i2c_s3c_irq_nextbyte_def start_state_def acked_def msgs Let_def)
  moreover have "at_msg (out_ack hw v) k 0 STATE_READ"
    using at_msg_same [OF at_u v(2)] by (rule same_out_ack_at)
  moreover have "advance s [] 0 (out_ack hw v)"
    using v(2) by (intro same_out_ack_advance) (simp add: advance_def same_def frame)
  moreover have "msgs (out_ack hw v) = msgs s"
    using v(2) by (simp add: same_simps) (simp add: same_def msgs)
  ultimately show ?thesis by blast
qed

text \<open>A byte received: stored, and the transfer stands one byte further.\<close>

definition stored :: "hw \<Rightarrow> s3c24xx_i2c \<Rightarrow> s3c24xx_i2c" where
  "stored hw s =
     (let (ds, t) = readl hw IICDS s; k = the (msg s); m = msgs s ! k
      in set_cur_msg (m\<lparr>msg_buf := (msg_buf m)[unat (msg_ptr s) := ucast ds]\<rparr>)
           (t\<lparr>msg_ptr := msg_ptr t + 1\<rparr>))"

lemma read_state_stored:
  assumes at: "at_msg s k p st" and p: "p < length (msg_buf (msgs s ! k))"
    and rl: "\<not> has (msg_flags (msgs s ! k)) I2C_M_RECV_LEN"
  shows "read_state hw s = prepare_read hw (stored hw s)"
proof -
  have "cur_msg (snd (readl hw IICDS s)) = Inr (msgs s ! k)" and "msg s = Some k"
    using at by (simp_all add: at_msg_def cur_msg_def frame)
  then show ?thesis
    using at_msg_ptr [OF at] p rl
    by (simp add: read_state_def stored_def split_def Let_def frame)
qed

lemma stored_at:
  assumes at: "at_msg s k p st" and p: "Suc p < 2 ^ 31"
  shows "at_msg (stored hw s) k (Suc p) st" "advance s [] 1 (stored hw s)"
    "msgs (stored hw s) = (msgs s)[k := (msgs s ! k)\<lparr>msg_buf :=
       (msg_buf (msgs s ! k))[p := ucast (hw IICDS (nreads s IICDS))]\<rparr>]"
  using at p
  by (simp_all add: stored_def split_def Let_def at_msg_def advance_def set_cur_msg_def frame
      unat_of_nat_u32)

definition received :: "hw \<Rightarrow> s3c24xx_i2c \<Rightarrow> nat \<Rightarrow> nat \<Rightarrow> i2c_msg list" where
  "received hw s k p = (msgs s)[k := (msgs s ! k)\<lparr>msg_buf :=
     (msg_buf (msgs s ! k))[p := ucast (hw IICDS (nreads s IICDS))]\<rparr>]"

lemma irq_read_unfold:
  assumes at: "at_msg s k p STATE_READ" and p: "p < length (msg_buf (msgs s ! k))"
    and rl: "\<not> has (msg_flags (msgs s ! k)) I2C_M_RECV_LEN"
  shows "s3c24xx_i2c_irq poll hw s =
    ebind (prepare_read hw (stored hw (snd (readl hw IICSTAT s)))) (\<lambda>s. Inr (out_ack hw s))"
proof -
  let ?t = "snd (readl hw IICSTAT s)"
  have at_t: "at_msg ?t k p STATE_READ" using at by (rule readl_stat_at_msg)
  have "state s = STATE_READ" "state ?t = STATE_READ" using at at_t by (simp_all add: at_msg_def)
  then show ?thesis
    using read_state_stored [OF at_t] p rl
    by (simp add: irq_unfold i2c_s3c_irq_nextbyte_def frame)
qed

lemma stored_stat:
  fixes hw :: hw
  assumes at: "at_msg s k p STATE_READ" and p: "Suc p < 2 ^ 31"
  defines "u \<equiv> stored hw (snd (readl hw IICSTAT s))"
  shows "at_msg u k (Suc p) STATE_READ" "advance s [] 1 u" "msgs u = received hw s k p"
proof -
  note at_t = stored_at [OF readl_stat_at_msg [OF at, of hw] p, of hw]
  show "at_msg u k (Suc p) STATE_READ" using at_t(1) by (simp add: u_def)
  show "advance s [] 1 u"
    using advance_trans [OF readl_stat_advance at_t(2)] by (simp add: u_def)
  show "msgs u = received hw s k p" using at_t(3) by (simp add: u_def received_def frame)
qed

lemma irq_read_byte:
  assumes at: "at_msg s k p STATE_READ" and p: "Suc p < unat (msg_len (msgs s ! k))"
    and buf: "p < length (msg_buf (msgs s ! k))"
    and rl: "\<not> has (msg_flags (msgs s ! k)) I2C_M_RECV_LEN"
  shows "\<exists>s'. s3c24xx_i2c_irq poll hw s = Inr s' \<and> at_msg s' k (Suc p) STATE_READ \<and>
    msgs s' = received hw s k p \<and> advance s [] 1 s'"
proof -
  let ?u = "stored hw (snd (readl hw IICSTAT s))"
  have p31: "Suc p < 2 ^ 31" using p unat_u16_less [of "msg_len (msgs s ! k)"] by simp
  note u = stored_stat [OF at p31, of hw]
  have k: "k < length (msgs s)" using at by (simp add: at_msg_def)
  obtain v where v: "prepare_read hw ?u = Inr v" "same ?u v"
    using prepare_read_mid [OF u(1), of hw] p rl k by (auto simp: u(3) received_def)
  have "s3c24xx_i2c_irq poll hw s = Inr (out_ack hw v)"
    using v(1) by (simp add: irq_read_unfold [OF at buf rl])
  moreover have "at_msg (out_ack hw v) k (Suc p) STATE_READ"
    using at_msg_same [OF u(1) v(2)] by (rule same_out_ack_at)
  moreover have "msgs (out_ack hw v) = received hw s k p" and "advance s [] 1 (out_ack hw v)"
    using v(2) u(2,3) by (simp_all add: same_simps advance_def) (simp_all add: same_def)
  ultimately show ?thesis by blast
qed

lemma irq_read_last:
  assumes at: "at_msg s k p STATE_READ" and p: "Suc p = unat (msg_len (msgs s ! k))"
    and buf: "p < length (msg_buf (msgs s ! k))"
    and rl: "\<not> has (msg_flags (msgs s ! k)) I2C_M_RECV_LEN"
    and last: "Suc k = length (msgs s)"
  shows "\<exists>s'. s3c24xx_i2c_irq poll hw s = Inr s' \<and> finished (int (length (msgs s))) s' \<and>
    msgs s' = received hw s k p \<and> advance s [] 1 s'"
proof -
  let ?u = "stored hw (snd (readl hw IICSTAT s))"
  have p31: "Suc p < 2 ^ 31" using p unat_u16_less [of "msg_len (msgs s ! k)"] by simp
  note u = stored_stat [OF at p31, of hw]
  have k: "k < length (msgs s)" using at by (simp add: at_msg_def)
  have N: "length (msgs ?u) = length (msgs s)" by (simp add: u(3) received_def)
  have "prepare_read hw ?u = Inr (s3c24xx_i2c_stop hw ?u 0)"
    using prepare_read_end [OF u(1), of hw] p rl k last by (simp add: u(3) received_def)
  then have "s3c24xx_i2c_irq poll hw s = Inr (out_ack hw (s3c24xx_i2c_stop hw ?u 0))"
    by (simp add: irq_read_unfold [OF at buf rl])
  then show ?thesis
    using finished_stop [OF u(1), of hw] advance_trans [OF u(2)] last N u(3) by auto
qed

section \<open>Runs of interrupts\<close>

text \<open>
  The wait of \<open>s3c24xx_i2c_doxfer\<close> for the end of the transfer: interrupts are handled until
  \<open>msg_num\<close> is 0 or the \<open>n\<close> interrupts the controller raises before the timeout are used up.
\<close>

primrec wait_done :: "poll \<Rightarrow> hw \<Rightarrow> nat \<Rightarrow> s3c24xx_i2c \<Rightarrow> fault + s3c24xx_i2c" where
  "wait_done poll hw 0 s = Inr s"
| "wait_done poll hw (Suc n) s =
     (if msg_num s = 0 then Inr s else ebind (s3c24xx_i2c_irq poll hw s) (wait_done poll hw n))"

declare wait_done.simps(2) [simp del]

lemma wait_done_stop: "msg_num s = 0 \<Longrightarrow> wait_done poll hw n s = Inr s"
  by (cases n) (simp_all add: wait_done.simps)

lemma wait_done_add: "wait_done poll hw (m + n) s = ebind (wait_done poll hw m s) (wait_done poll hw n)"
proof (induction m arbitrary: s)
  case (Suc m)
  then show ?case
    by (cases "s3c24xx_i2c_irq poll hw s") (simp_all add: wait_done.simps(2) wait_done_stop)
qed simp

lemma at_msg_num: "at_msg s k p st \<Longrightarrow> msg_num s \<noteq> 0"
  using of_nat_eq_u32 [of "length (msgs s)" 0] by (auto simp: at_msg_def)

lemma wait_done_Suc:
  "at_msg s k p st \<Longrightarrow> s3c24xx_i2c_irq poll hw s = Inr t \<Longrightarrow>
    wait_done poll hw (Suc n) s = wait_done poll hw n t"
  by (simp add: wait_done.simps at_msg_num)

lemma wait_done_one: "at_msg s k p st \<Longrightarrow> wait_done poll hw (Suc 0) s = s3c24xx_i2c_irq poll hw s"
  by (cases "s3c24xx_i2c_irq poll hw s") (simp_all add: wait_done.simps(2) at_msg_num)

text \<open>Messages that carry data one way, with a buffer that holds them.\<close>

definition plain_write :: "i2c_msg \<Rightarrow> bool" where
  "plain_write m \<longleftrightarrow> \<not> has (msg_flags m) I2C_M_RD \<and> \<not> has (msg_flags m) I2C_M_NOSTART \<and>
     unat (msg_len m) \<le> length (msg_buf m)"

definition plain_read :: "i2c_msg \<Rightarrow> bool" where
  "plain_read m \<longleftrightarrow> has (msg_flags m) I2C_M_RD \<and> \<not> has (msg_flags m) I2C_M_NOSTART \<and>
     \<not> has (msg_flags m) I2C_M_RECV_LEN \<and> unat (msg_len m) \<le> length (msg_buf m)"

definition tx_bytes :: "i2c_msg \<Rightarrow> u8 list" where
  "tx_bytes m = take (unat (msg_len m)) (msg_buf m)"

lemma irq_write:
  assumes at: "at_msg s k p st" and st: "st = STATE_START \<or> st = STATE_WRITE"
    and m: "plain_write (msgs s ! k)" and ack: "acked hw"
  shows
    "p < unat (msg_len (msgs s ! k)) \<Longrightarrow> \<exists>s'. s3c24xx_i2c_irq poll hw s = Inr s' \<and>
       at_msg s' k (Suc p) STATE_WRITE \<and> msgs s' = msgs s \<and> advance s [msg_buf (msgs s ! k) ! p] 0 s'"
    (is "?lt \<Longrightarrow> ?byte")
    and "unat (msg_len (msgs s ! k)) \<le> p \<Longrightarrow> Suc k < length (msgs s) \<Longrightarrow>
       \<not> has (msg_flags (msgs s ! Suc k)) I2C_M_NOSTART \<Longrightarrow> \<exists>s'. s3c24xx_i2c_irq poll hw s = Inr s' \<and>
       at_msg s' (Suc k) 0 STATE_START \<and> msgs s' = msgs s \<and> advance s [addr_byte (msgs s ! Suc k)] 0 s'"
    (is "?ge \<Longrightarrow> ?more \<Longrightarrow> ?ns \<Longrightarrow> ?next")
    and "unat (msg_len (msgs s ! k)) \<le> p \<Longrightarrow> Suc k = length (msgs s) \<Longrightarrow> st = STATE_WRITE \<Longrightarrow>
       \<exists>s'. s3c24xx_i2c_irq poll hw s = Inr s' \<and> finished (int (length (msgs s))) s' \<and>
       msgs s' = msgs s \<and> advance s [] 0 s'"
    (is "?ge \<Longrightarrow> ?last \<Longrightarrow> ?wr \<Longrightarrow> ?done")
proof -
  let ?t = "snd (readl hw IICSTAT s)"
  have at_t: "at_msg ?t k p st" using at by (rule readl_stat_at_msg)
  have msgs: "msgs ?t = msgs s" by (simp add: frame)
  have rd: "\<not> has (msg_flags (msgs s ! k)) I2C_M_RD"
    and buf: "unat (msg_len (msgs s ! k)) \<le> length (msg_buf (msgs s ! k))"
    using m by (simp_all add: plain_write_def)
  note adv = advance_trans [OF readl_stat_advance [of s hw], simplified]
  show ?byte if ?lt
  proof -
    from that have "msg_len (msgs s ! k) \<noteq> 0" by auto
    then show ?thesis
      using irq_write_phase [OF at st rd _ ack, of poll] that
        write_phase_byte [OF at_t, of poll hw] buf adv by (auto simp: msgs)
  qed
  show ?next if ?ge ?more ?ns
    using irq_write_phase [OF at st rd _ ack, of poll] that
      write_phase_next [OF at_t, of poll hw] adv by (auto simp: msgs)
  show ?done if ?ge ?last ?wr
    using irq_write_phase [OF at st rd _ ack, of poll] that
      write_phase_last [OF at_t, of poll hw] adv by (auto simp: msgs)
qed

lemma irq_empty_last:
  assumes at: "at_msg s k 0 STATE_START" and len: "msg_len (msgs s ! k) = 0"
    and last: "Suc k = length (msgs s)" and ack: "acked hw"
  shows "\<exists>s'. s3c24xx_i2c_irq poll hw s = Inr s' \<and> finished (int (length (msgs s))) s' \<and>
    msgs s' = msgs s \<and> advance s [] 0 s'"
proof -
  let ?t = "snd (readl hw IICSTAT s)"
  let ?st = "if has (msg_flags (msgs s ! k)) I2C_M_RD then STATE_READ else STATE_WRITE"
  let ?u = "?t\<lparr>state := ?st\<rparr>"
  have at_t: "at_msg ?t k 0 STATE_START" using at by (rule readl_stat_at_msg)
  have at_u: "at_msg ?u k 0 ?st" using at_t by (rule at_msg_state)
  have msgs: "msgs ?t = msgs s" by (simp add: frame)
  have st: "state s = STATE_START" "state ?t = STATE_START" using at at_t by (simp_all add: at_msg_def)
  have "s3c24xx_i2c_irq poll hw s = Inr (out_ack hw (s3c24xx_i2c_stop hw ?u 0))"
    using st at_msg_cur [OF at_t] at_msg_lastmsg [OF at_t] last len ack
    by (simp add: irq_unfold i2c_s3c_irq_nextbyte_def start_state_def acked_def msgs Let_def)
  then show ?thesis
    using finished_stop [OF at_u, of hw] last by (simp add: msgs advance_def frame)
qed

lemma run_write_bytes:
  assumes "at_msg s k p st" "st = STATE_START \<or> st = STATE_WRITE" "acked hw"
    and "plain_write (msgs s ! k)" "p < unat (msg_len (msgs s ! k))"
  shows "\<exists>s'. wait_done poll hw (unat (msg_len (msgs s ! k)) - p) s = Inr s' \<and>
    at_msg s' k (unat (msg_len (msgs s ! k))) STATE_WRITE \<and> msgs s' = msgs s \<and>
    advance s (drop p (tx_bytes (msgs s ! k))) 0 s'"
  using assms
proof (induction "unat (msg_len (msgs s ! k)) - Suc p" arbitrary: s p st)
  case (0 s p st)
  then have "unat (msg_len (msgs s ! k)) = Suc p" by simp
  moreover note wait_done_one [OF 0(2), of poll hw]
  moreover from calculation 0 have "drop p (tx_bytes (msgs s ! k)) = [msg_buf (msgs s ! k) ! p]"
    by (simp add: tx_bytes_def plain_write_def take_Suc_conv_app_nth)
  moreover have "\<exists>s'. s3c24xx_i2c_irq poll hw s = Inr s' \<and> at_msg s' k (Suc p) STATE_WRITE \<and>
      msgs s' = msgs s \<and> advance s [msg_buf (msgs s ! k) ! p] 0 s'"
    using 0 by (intro irq_write(1)) auto
  ultimately show ?case by auto
next
  case (Suc n s p st)
  let ?m = "msgs s ! k"
  have n: "n = unat (msg_len ?m) - Suc (Suc p)" and lt: "Suc p < unat (msg_len ?m)"
    using Suc.hyps(2) by simp_all
  obtain t where t: "s3c24xx_i2c_irq poll hw s = Inr t" "at_msg t k (Suc p) STATE_WRITE"
      "msgs t = msgs s" "advance s [msg_buf ?m ! p] 0 t"
    using irq_write(1) [OF Suc.prems(1,2,4,3), of poll] Suc.prems(5) by blast
  obtain u where u: "wait_done poll hw (unat (msg_len ?m) - Suc p) t = Inr u"
      "at_msg u k (unat (msg_len ?m)) STATE_WRITE" "msgs u = msgs s"
      "advance t (drop (Suc p) (tx_bytes ?m)) 0 u"
    using Suc.hyps(1) [of t "Suc p" STATE_WRITE] n lt Suc.prems(3,4) t by auto
  have "unat (msg_len ?m) - p = Suc (unat (msg_len ?m) - Suc p)" using Suc.prems(5) by simp
  then have "wait_done poll hw (unat (msg_len ?m) - p) s = Inr u"
    using t(1) u(1) by (simp add: wait_done_Suc [OF Suc.prems(1)])
  moreover have "drop p (tx_bytes ?m) = msg_buf ?m ! p # drop (Suc p) (tx_bytes ?m)"
    using Suc.prems(4,5) by (simp add: Cons_nth_drop_Suc [symmetric] tx_bytes_def plain_write_def)
  moreover have "advance s (msg_buf ?m ! p # drop (Suc p) (tx_bytes ?m)) 0 u"
    using advance_trans [OF t(4) u(4)] by simp
  ultimately show ?case using u(2,3) by auto
qed

lemma run_write_all:
  assumes at: "at_msg s k 0 STATE_START" and ack: "acked hw" and m: "plain_write (msgs s ! k)"
  shows "\<exists>s' st. wait_done poll hw (unat (msg_len (msgs s ! k))) s = Inr s' \<and>
    at_msg s' k (unat (msg_len (msgs s ! k))) st \<and> (st = STATE_START \<or> st = STATE_WRITE) \<and>
    (msg_len (msgs s ! k) \<noteq> 0 \<longrightarrow> st = STATE_WRITE) \<and>
    msgs s' = msgs s \<and> advance s (tx_bytes (msgs s ! k)) 0 s'"
proof (cases "msg_len (msgs s ! k) = 0")
  case True
  with at show ?thesis by (auto simp: tx_bytes_def)
next
  case False
  then have "0 < unat (msg_len (msgs s ! k))" by (simp add: unat_gt_0)
  with run_write_bytes [OF at _ ack m, of poll] show ?thesis by auto
qed

text \<open>One write message, and what follows it.\<close>

lemma run_write_next:
  assumes at: "at_msg s k 0 STATE_START" and ack: "acked hw" and m: "plain_write (msgs s ! k)"
    and nxt: "Suc k < length (msgs s)" and ns: "\<not> has (msg_flags (msgs s ! Suc k)) I2C_M_NOSTART"
  shows "\<exists>s'. wait_done poll hw (unat (msg_len (msgs s ! k)) + 1) s = Inr s' \<and>
    at_msg s' (Suc k) 0 STATE_START \<and> msgs s' = msgs s \<and>
    advance s (tx_bytes (msgs s ! k) @ [addr_byte (msgs s ! Suc k)]) 0 s'"
proof -
  obtain t st where t: "wait_done poll hw (unat (msg_len (msgs s ! k))) s = Inr t"
      "at_msg t k (unat (msg_len (msgs s ! k))) st" "st = STATE_START \<or> st = STATE_WRITE"
      "msgs t = msgs s" "advance s (tx_bytes (msgs s ! k)) 0 t"
    using run_write_all [OF at ack m, of poll] by blast
  obtain u where u: "s3c24xx_i2c_irq poll hw t = Inr u" "at_msg u (Suc k) 0 STATE_START"
      "msgs u = msgs s" "advance t [addr_byte (msgs s ! Suc k)] 0 u"
    using irq_write(2) [OF t(2,3) _ ack, of poll] m nxt ns by (auto simp: t(4))
  have "wait_done poll hw (unat (msg_len (msgs s ! k)) + 1) s = Inr u"
    using t(1) u(1) by (simp only: wait_done_add) (simp add: wait_done_Suc [OF t(2)])
  then show ?thesis using u(2,3) advance_trans [OF t(5) u(4)] by auto
qed

lemma run_write_last:
  assumes at: "at_msg s k 0 STATE_START" and ack: "acked hw" and m: "plain_write (msgs s ! k)"
    and last: "Suc k = length (msgs s)"
  shows "\<exists>s'. wait_done poll hw (unat (msg_len (msgs s ! k)) + 1) s = Inr s' \<and>
    finished (int (length (msgs s))) s' \<and> msgs s' = msgs s \<and> advance s (tx_bytes (msgs s ! k)) 0 s'"
proof (cases "msg_len (msgs s ! k) = 0")
  case True
  then show ?thesis using irq_empty_last [OF at True last ack, of poll] wait_done_one [OF at, of poll hw]
    by (simp add: tx_bytes_def)
next
  case False
  obtain t where t: "wait_done poll hw (unat (msg_len (msgs s ! k))) s = Inr t"
      "at_msg t k (unat (msg_len (msgs s ! k))) STATE_WRITE"
      "msgs t = msgs s" "advance s (tx_bytes (msgs s ! k)) 0 t"
    using run_write_all [OF at ack m, of poll] False by blast
  obtain u where u: "s3c24xx_i2c_irq poll hw t = Inr u" "finished (int (length (msgs s))) u"
      "msgs u = msgs s" "advance t [] 0 u"
    using irq_write(3) [OF t(2) _ _ ack, of poll] m last by (auto simp: t(3))
  have "wait_done poll hw (unat (msg_len (msgs s ! k)) + 1) s = Inr u"
    using t(1) u(1) by (simp only: wait_done_add) (simp add: wait_done_Suc [OF t(2)])
  then show ?thesis using u(2,3) advance_trans [OF t(4) u(4)] by auto
qed

text \<open>The bytes received: the low bytes of successive reads of the data register.\<close>

primrec rx_bytes :: "hw \<Rightarrow> nat \<Rightarrow> nat \<Rightarrow> u8 list" where
  "rx_bytes hw n 0 = []"
| "rx_bytes hw n (Suc c) = ucast (hw IICDS n) # rx_bytes hw (Suc n) c"

lemma rx_bytes_numeral [simp]:
  "rx_bytes hw n (numeral v) = ucast (hw IICDS n) # rx_bytes hw (Suc n) (pred_numeral v)"
  by (simp add: numeral_eq_Suc)

lemma length_rx_bytes [simp]: "length (rx_bytes hw n c) = c"
  by (induction c arbitrary: n) auto

definition fill :: "i2c_msg \<Rightarrow> nat \<Rightarrow> u8 list \<Rightarrow> i2c_msg" where
  "fill m p bs = m\<lparr>msg_buf := overwrite (msg_buf m) p bs\<rparr>"

lemma run_read_bytes:
  assumes "at_msg s k p STATE_READ" "plain_read (msgs s ! k)" "Suc k = length (msgs s)"
    and "p < unat (msg_len (msgs s ! k))"
  shows "\<exists>s'. wait_done poll hw (unat (msg_len (msgs s ! k)) - p) s = Inr s' \<and>
    finished (int (length (msgs s))) s' \<and> advance s [] (unat (msg_len (msgs s ! k)) - p) s' \<and>
    msgs s' = (msgs s)[k := fill (msgs s ! k) p
      (rx_bytes hw (nreads s IICDS) (unat (msg_len (msgs s ! k)) - p))]"
  using assms
proof (induction "unat (msg_len (msgs s ! k)) - Suc p" arbitrary: s p)
  case (0 s p)
  let ?m = "msgs s ! k"
  have len: "Suc p = unat (msg_len ?m)" and buf: "p < length (msg_buf ?m)"
    and rl: "\<not> has (msg_flags ?m) I2C_M_RECV_LEN"
    using 0 by (simp_all add: plain_read_def)
  have "received hw s k p = (msgs s)[k := fill ?m p (rx_bytes hw (nreads s IICDS) (Suc 0))]"
    using buf by (simp add: received_def fill_def overwrite_update [symmetric])
  then show ?case
    using irq_read_last [OF 0(2) len buf rl 0(4), of poll hw] wait_done_one [OF 0(2), of poll hw]
    by (auto simp: len [symmetric])
next
  case (Suc n s p)
  let ?m = "msgs s ! k"
  have lt: "Suc p < unat (msg_len ?m)" and n: "n = unat (msg_len ?m) - Suc (Suc p)"
    and buf: "p < length (msg_buf ?m)" and rl: "\<not> has (msg_flags ?m) I2C_M_RECV_LEN"
    and k: "k < length (msgs s)"
    using Suc.hyps(2) Suc.prems by (simp_all add: plain_read_def at_msg_def)
  obtain t where t: "s3c24xx_i2c_irq poll hw s = Inr t" "at_msg t k (Suc p) STATE_READ"
      "msgs t = received hw s k p" "advance s [] 1 t"
    using irq_read_byte [OF Suc.prems(1) lt buf rl, of poll hw] by blast
  let ?b = "ucast (hw IICDS (nreads s IICDS)) :: u8" and ?c = "unat (msg_len ?m) - Suc p"
  have tk: "msgs t ! k = ?m\<lparr>msg_buf := (msg_buf ?m)[p := ?b]\<rparr>"
    and N: "length (msgs t) = length (msgs s)" and nr: "nreads t IICDS = Suc (nreads s IICDS)"
    using t(3,4) k by (simp_all add: received_def advance_def)
  obtain u where u: "wait_done poll hw ?c t = Inr u" "finished (int (length (msgs s))) u"
      "advance t [] ?c u"
      "msgs u = (msgs t)[k := fill (msgs t ! k) (Suc p) (rx_bytes hw (Suc (nreads s IICDS)) ?c)]"
    using Suc.hyps(1) [of t "Suc p"] n lt t(2) Suc.prems(2,3)
    by (auto simp: tk N nr plain_read_def)
  have c: "unat (msg_len ?m) - p = Suc ?c" using lt by simp
  have "wait_done poll hw (unat (msg_len ?m) - p) s = Inr u"
    using t(1) u(1) by (simp add: c wait_done_Suc [OF Suc.prems(1)])
  moreover have "msgs u = (msgs s)[k := fill ?m p (rx_bytes hw (nreads s IICDS) (Suc ?c))]"
    using u(4) tk t(3) buf by (simp add: received_def fill_def overwrite_update)
  moreover have "advance s [] (Suc ?c) u" using advance_trans [OF t(4) u(3)] by simp
  ultimately show ?case using u(2) by (simp add: c del: rx_bytes.simps)
qed

lemma run_read_last:
  assumes at: "at_msg s k 0 STATE_START" and ack: "acked hw" and m: "plain_read (msgs s ! k)"
    and last: "Suc k = length (msgs s)"
  shows "\<exists>s'. wait_done poll hw (unat (msg_len (msgs s ! k)) + 1) s = Inr s' \<and>
    finished (int (length (msgs s))) s' \<and> advance s [] (unat (msg_len (msgs s ! k))) s' \<and>
    msgs s' = (msgs s)[k := fill (msgs s ! k) 0
      (rx_bytes hw (nreads s IICDS) (unat (msg_len (msgs s ! k))))]"
proof (cases "msg_len (msgs s ! k) = 0")
  case True
  then show ?thesis using irq_empty_last [OF at True last ack, of poll] wait_done_one [OF at, of poll hw]
    by (auto simp: fill_def)
next
  case False
  have rd: "has (msg_flags (msgs s ! k)) I2C_M_RD" "\<not> has (msg_flags (msgs s ! k)) I2C_M_RECV_LEN"
    using m by (simp_all add: plain_read_def)
  have pos: "0 < unat (msg_len (msgs s ! k))" using False by (simp add: unat_gt_0)
  obtain t where t: "s3c24xx_i2c_irq poll hw s = Inr t" "at_msg t k 0 STATE_READ"
      "msgs t = msgs s" "advance s [] 0 t"
    using irq_read_start [OF at rd False ack, of poll] by blast
  have nr: "nreads t IICDS = nreads s IICDS" using t(4) by (simp add: advance_def)
  obtain u where u: "wait_done poll hw (unat (msg_len (msgs s ! k))) t = Inr u"
      "finished (int (length (msgs s))) u" "advance t [] (unat (msg_len (msgs s ! k))) u"
      "msgs u = (msgs s)[k := fill (msgs s ! k) 0
        (rx_bytes hw (nreads s IICDS) (unat (msg_len (msgs s ! k))))]"
    using run_read_bytes [OF t(2), of poll hw] m last pos by (auto simp: t(3) nr)
  then show ?thesis using t(1) advance_trans [OF t(4) u(3)] by (simp add: wait_done_Suc [OF at])
qed

section \<open>Whole transfers\<close>

text \<open>
  What a transfer promises: each message puts its address byte and, when it writes, its data on
  the bus; a read at the end fills its buffer. The transfers the driver handles are
  writes followed by at most one read, the shape of every combined transaction of the EEPROM driver.
\<close>

definition wire :: "i2c_msg list \<Rightarrow> u8 list" where
  "wire ms = concat (map (\<lambda>m. addr_byte m # (if has (msg_flags m) I2C_M_RD then [] else tx_bytes m)) ms)"

definition irqs_needed :: "i2c_msg list \<Rightarrow> nat" where
  "irqs_needed ms = sum_list (map (\<lambda>m. unat (msg_len m) + 1) ms)"

definition transfer_ok :: "i2c_msg list \<Rightarrow> bool" where
  "transfer_ok ms \<longleftrightarrow> ms \<noteq> [] \<and> length ms < 2 ^ 31 \<and> list_all plain_write (butlast ms) \<and>
     (plain_write (last ms) \<or> plain_read (last ms))"

definition rx_count :: "i2c_msg list \<Rightarrow> nat" where
  "rx_count ms = (if has (msg_flags (last ms)) I2C_M_RD then unat (msg_len (last ms)) else 0)"

definition deliver :: "hw \<Rightarrow> nat \<Rightarrow> i2c_msg list \<Rightarrow> i2c_msg list" where
  "deliver hw n ms = ms[length ms - 1 := fill (last ms) 0 (rx_bytes hw n (rx_count ms))]"

lemma transfer_ok_write:
  "transfer_ok ms \<Longrightarrow> Suc k < length ms \<Longrightarrow>
     plain_write (ms ! k) \<and> \<not> has (msg_flags (ms ! Suc k)) I2C_M_NOSTART"
proof -
  assume ok: "transfer_ok ms" and k: "Suc k < length ms"
  have w: "plain_write (ms ! j)" if "Suc j < length ms" for j
    using ok that by (auto simp: transfer_ok_def list_all_length nth_butlast)
  have "plain_write (ms ! Suc k) \<or> plain_read (ms ! Suc k)"
  proof (cases "Suc (Suc k) < length ms")
    case False
    with k have "ms ! Suc k = last ms" by (simp add: last_position)
    then show ?thesis using ok by (simp add: transfer_ok_def)
  qed (simp add: w)
  then show ?thesis using w [OF k] by (auto simp: plain_write_def plain_read_def)
qed

lemma run_from_start:
  assumes "at_msg s k 0 STATE_START" and ack: "acked hw" and "transfer_ok (msgs s)"
  shows "\<exists>s'. wait_done poll hw (irqs_needed (drop k (msgs s))) s = Inr s' \<and>
    finished (int (length (msgs s))) s' \<and> msgs s' = deliver hw (nreads s IICDS) (msgs s) \<and>
    advance s (tl (wire (drop k (msgs s)))) (rx_count (msgs s)) s'"
  using assms(1,3)
proof (induction "length (msgs s) - Suc k" arbitrary: s k)
  case (0 s k)
  let ?ms = "msgs s"
  have last: "Suc k = length ?ms" using 0 by (simp add: at_msg_def)
  then have m: "?ms ! k = last ?ms" and d: "drop k ?ms = [last ?ms]"
    by (simp_all add: last_position)
  have n: "irqs_needed (drop k ?ms) = unat (msg_len (?ms ! k)) + 1"
    by (simp add: d m irqs_needed_def)
  show ?case
  proof (cases "plain_write (last ?ms)")
    case True
    then have rd: "\<not> has (msg_flags (last ?ms)) I2C_M_RD" by (simp add: plain_write_def)
    then have "tl (wire (drop k ?ms)) = tx_bytes (?ms ! k)" "rx_count ?ms = 0"
      "deliver hw (nreads s IICDS) ?ms = ?ms"
      using last by (simp_all add: d m wire_def rx_count_def deliver_def fill_def)
    then show ?thesis using run_write_last [OF 0(2) ack _ last, of poll] True by (auto simp: n m)
  next
    case False
    then have r: "plain_read (last ?ms)" using 0(3) by (simp add: transfer_ok_def)
    then have rd: "has (msg_flags (last ?ms)) I2C_M_RD" by (simp add: plain_read_def)
    then have "tl (wire (drop k ?ms)) = []" "rx_count ?ms = unat (msg_len (?ms ! k))"
      "deliver hw (nreads s IICDS) ?ms =
         ?ms[k := fill (?ms ! k) 0 (rx_bytes hw (nreads s IICDS) (unat (msg_len (?ms ! k))))]"
      using last [symmetric] by (simp_all add: d m wire_def rx_count_def deliver_def)
    then show ?thesis using run_read_last [OF 0(2) ack _ last, of poll] r by (auto simp: n m)
  qed
next
  case (Suc n s k)
  let ?ms = "msgs s"
  have nxt: "Suc k < length ?ms" and n: "n = length ?ms - Suc (Suc k)" using Suc.hyps(2) by simp_all
  then have d: "drop k ?ms = ?ms ! k # drop (Suc k) ?ms" "drop (Suc k) ?ms = ?ms ! Suc k # drop (Suc (Suc k)) ?ms"
    by (simp_all add: Cons_nth_drop_Suc)
  note w = transfer_ok_write [OF Suc.prems(2) nxt]
  obtain t where t: "wait_done poll hw (unat (msg_len (?ms ! k)) + 1) s = Inr t"
      "at_msg t (Suc k) 0 STATE_START" "msgs t = ?ms"
      "advance s (tx_bytes (?ms ! k) @ [addr_byte (?ms ! Suc k)]) 0 t"
    using run_write_next [OF Suc.prems(1) ack _ nxt, of poll] w by blast
  have nr: "nreads t IICDS = nreads s IICDS" using t(4) by (simp add: advance_def)
  obtain u where u: "wait_done poll hw (irqs_needed (drop (Suc k) ?ms)) t = Inr u"
      "finished (int (length ?ms)) u" "msgs u = deliver hw (nreads s IICDS) ?ms"
      "advance t (tl (wire (drop (Suc k) ?ms))) (rx_count ?ms) u"
    using Suc.hyps(1) [of t "Suc k"] n Suc.prems(2) t(2) by (auto simp: t(3) nr)
  have "irqs_needed (drop k ?ms) = unat (msg_len (?ms ! k)) + 1 + irqs_needed (drop (Suc k) ?ms)"
    by (simp add: d(1) irqs_needed_def)
  then have "wait_done poll hw (irqs_needed (drop k ?ms)) s = Inr u"
    using t(1) u(1) by (simp only: wait_done_add) simp
  moreover have "tl (wire (drop k ?ms)) =
      (tx_bytes (?ms ! k) @ [addr_byte (?ms ! Suc k)]) @ tl (wire (drop (Suc k) ?ms))"
    using w by (simp add: d wire_def plain_write_def)
  ultimately show ?case using u(2,3) advance_trans [OF t(4) u(4)] by auto
qed

end
