(* ===== verification/I2C_Xfer.thy ===== *)
theory I2C_Xfer
  imports I2C_Transfer
begin

text \<open>
  The S3C2440 I2C controller driver, part three: taking the bus (\<open>s3c24xx_i2c_set_master\<close>),
  waiting for it to go idle (\<open>s3c24xx_i2c_wait_idle\<close>), one attempt at a transfer
  (\<open>s3c24xx_i2c_doxfer\<close>) and the entry point of the I2C core (\<open>s3c24xx_i2c_xfer\<close>).
\<close>

section \<open>Taking and releasing the bus\<close>

definition s3c24xx_i2c_disable_bus :: "hw \<Rightarrow> s3c24xx_i2c \<Rightarrow> s3c24xx_i2c" where
  "s3c24xx_i2c_disable_bus hw s =
     (let (tmp, s) = readl hw IICSTAT s;
          s = writel (tmp AND NOT IICSTAT_TXRXEN) IICSTAT s;
          (tmp, s) = readl hw IICCON s
      in writel (tmp AND NOT (IICCON_IRQEN OR IICCON_IRQPEND OR IICCON_ACKEN)) IICCON s)"

primrec set_master_loop :: "nat \<Rightarrow> hw \<Rightarrow> s3c24xx_i2c \<Rightarrow> int \<times> s3c24xx_i2c" where
  "set_master_loop 0 hw s = (- ETIMEDOUT, s)"
| "set_master_loop (Suc timeout) hw s =
     (let (iicstat, s) = readl hw IICSTAT s
      in if \<not> has iicstat IICSTAT_BUSBUSY then (0, s)
         else set_master_loop timeout hw (emit (Msleep 1) s))"

definition s3c24xx_i2c_set_master :: "hw \<Rightarrow> s3c24xx_i2c \<Rightarrow> int \<times> s3c24xx_i2c" where
  "s3c24xx_i2c_set_master hw s = set_master_loop 400 hw s"

section \<open>Waiting for the bus to go idle\<close>

text \<open>
  \<open>ktime k\<close> is the value of the \<open>k\<close>-th \<open>ktime_get\<close> of one call, in microseconds. The first
  loop decrements \<open>spins\<close> in its condition; the second runs until the bus is idle or 5000
  microseconds have passed, so it needs fuel.
\<close>

definition S3C2410_IDLE_TIMEOUT :: int where "S3C2410_IDLE_TIMEOUT = 5000"

primrec spin_loop :: "nat \<Rightarrow> hw \<Rightarrow> u32 \<Rightarrow> s3c24xx_i2c \<Rightarrow> u32 \<times> s3c24xx_i2c" where
  "spin_loop 0 hw iicstat s = (iicstat, s)"
| "spin_loop (Suc spins) hw iicstat s =
     (if has iicstat IICSTAT_START \<and> spins \<noteq> 0
      then let (iicstat, s) = readl hw IICSTAT s in spin_loop spins hw iicstat s
      else (iicstat, s))"

primrec idle_loop ::
  "nat \<Rightarrow> hw \<Rightarrow> (nat \<Rightarrow> int) \<Rightarrow> nat \<Rightarrow> int \<Rightarrow> u32 \<Rightarrow> u32 \<Rightarrow> s3c24xx_i2c \<Rightarrow> fault + s3c24xx_i2c" where
  "idle_loop 0 hw ktime k now delay iicstat s = Inl OutOfFuel"
| "idle_loop (Suc n) hw ktime k now delay iicstat s =
     (if has iicstat IICSTAT_START \<and> now - ktime 0 < S3C2410_IDLE_TIMEOUT
      then let s = emit (Usleep (unat delay) (unat (2 * delay))) s;
               delay = (if delay < word_of_int (S3C2410_IDLE_TIMEOUT div 10)
                        then push_bit 1 delay else delay);
               now = ktime k;
               (iicstat, s) = readl hw IICSTAT s
           in idle_loop n hw ktime (Suc k) now delay iicstat s
      else Inr s)"

definition s3c24xx_i2c_wait_idle ::
  "nat \<Rightarrow> hw \<Rightarrow> (nat \<Rightarrow> int) \<Rightarrow> s3c24xx_i2c \<Rightarrow> fault + s3c24xx_i2c" where
  "s3c24xx_i2c_wait_idle fuel hw ktime s =
     (let start = ktime 0;
          (iicstat, s) = readl hw IICSTAT s;
          (iicstat, s) = spin_loop 3 hw iicstat s
      in idle_loop fuel hw ktime 1 start 1 iicstat s)"

section \<open>Transfers\<close>

text \<open>
  What one attempt meets: how many interrupts the controller raises within the five seconds the
  caller waits, the clock, and the fuel of the polling loops.
\<close>

record xfer_env =
  nirq :: nat
  ktime :: "nat \<Rightarrow> int"
  fuel :: nat

text \<open>The transfer \<open>doxfer\<close> sets up.\<close>

definition xfer_start :: "s3c24xx_i2c \<Rightarrow> i2c_msg list \<Rightarrow> int \<Rightarrow> s3c24xx_i2c" where
  "xfer_start s ms num = s\<lparr>msgs := ms, msg := Some 0, msg_num := word_of_int num, msg_ptr := 0,
     msg_idx := 0, state := STATE_START\<rparr>"

text \<open>From the start of the first message to the return.\<close>

definition doxfer_finish :: "xfer_env \<Rightarrow> hw \<Rightarrow> s3c24xx_i2c \<Rightarrow> fault + (int \<times> s3c24xx_i2c)" where
  "doxfer_finish env hw s =
     (if has (quirks s) QUIRK_POLL then Inr (sint (msg_idx s), s\<lparr>state := STATE_IDLE\<rparr>)
      else ebind (wait_done (poll_loop (fuel env) hw) hw (nirq env) s) (\<lambda>s.
        let ret = sint (msg_idx s) in
        if has (quirks s) QUIRK_HDMIPHY then Inr (ret, s\<lparr>state := STATE_IDLE\<rparr>)
        else ebind (s3c24xx_i2c_wait_idle (fuel env) hw (ktime env) s) (\<lambda>s.
          Inr (ret, (s3c24xx_i2c_disable_bus hw s)\<lparr>state := STATE_IDLE\<rparr>))))"

definition s3c24xx_i2c_doxfer ::
  "xfer_env \<Rightarrow> hw \<Rightarrow> s3c24xx_i2c \<Rightarrow> i2c_msg list \<Rightarrow> int \<Rightarrow> fault + (int \<times> s3c24xx_i2c)" where
  "s3c24xx_i2c_doxfer env hw s ms num =
     (if suspended s then Inr (- EIO, s)
      else let (ret, s) = s3c24xx_i2c_set_master hw s in
        if ret \<noteq> 0 then Inr (- EAGAIN, s)
        else
          let s = s3c24xx_i2c_enable_irq hw (xfer_start s ms num)
          in ebind (get ms 0) (\<lambda>m.
               ebind (s3c24xx_i2c_message_start (poll_loop (fuel env) hw) hw s m)
                 (doxfer_finish env hw)))"

text \<open>
  \<open>retries\<close> is the field of the adapter (set to 2 by the probe function), \<open>clk_ret\<close> the result of
  \<open>clk_enable\<close>; every attempt has its own environment.
\<close>

primrec xfer_loop ::
  "nat \<Rightarrow> (nat \<Rightarrow> xfer_env) \<Rightarrow> nat \<Rightarrow> hw \<Rightarrow> s3c24xx_i2c \<Rightarrow> i2c_msg list \<Rightarrow> int \<Rightarrow>
    fault + (int \<times> s3c24xx_i2c)" where
  "xfer_loop 0 envs retry hw s ms num = Inr (- EREMOTEIO, emit ClkDisable s)"
| "xfer_loop (Suc n) envs retry hw s ms num =
     ebind (s3c24xx_i2c_doxfer (envs retry) hw s ms num) (\<lambda>(ret, s).
       if ret \<noteq> - EAGAIN then Inr (ret, emit ClkDisable s)
       else xfer_loop n envs (Suc retry) hw (emit (Udelay 100) s) ms num)"

definition s3c24xx_i2c_xfer ::
  "nat \<Rightarrow> int \<Rightarrow> (nat \<Rightarrow> xfer_env) \<Rightarrow> hw \<Rightarrow> s3c24xx_i2c \<Rightarrow> i2c_msg list \<Rightarrow> int \<Rightarrow>
    fault + (int \<times> s3c24xx_i2c)" where
  "s3c24xx_i2c_xfer retries clk_ret envs hw s ms num =
     (if clk_ret \<noteq> 0 then Inr (clk_ret, s)
      else xfer_loop retries envs 0 hw (emit ClkEnable s) ms num)"

section \<open>Polling\<close>

lemma same_trans: "same s t \<Longrightarrow> same t u \<Longrightarrow> same s u"
  by (simp add: same_def)

lemma same_readl: "same s t \<Longrightarrow> r \<noteq> IICDS \<Longrightarrow> same s (snd (readl hw r t))"
  by (simp add: same_def frame)

lemma same_emit: "same s t \<Longrightarrow> ds_of e = [] \<Longrightarrow> same s (emit e t)"
  by (simp add: same_def)

lemmas same_intros = same_refl same_readl same_emit

lemma same_disable_bus [frame]: "same s (s3c24xx_i2c_disable_bus hw s)"
  by (simp add: s3c24xx_i2c_disable_bus_def split_def Let_def same_intros)

text \<open>\<open>set_master\<close> gives up after 400 busy polls, and only then.\<close>

lemma set_master_loop_result:
  "fst (set_master_loop n hw s) =
     (if \<exists>k<n. \<not> has (hw IICSTAT (nreads s IICSTAT + k)) IICSTAT_BUSBUSY then 0 else - ETIMEDOUT)"
proof (induction n arbitrary: s)
  case (Suc n)
  show ?case
    by (simp add: split_def Let_def frame Suc.IH Ex_less_Suc2)
qed simp

lemma same_set_master_loop: "same s (snd (set_master_loop n hw s))"
proof (induction n arbitrary: s)
  case (Suc n)
  have "same s (emit (Msleep 1) (snd (readl hw IICSTAT s)))" by (simp add: same_intros)
  from same_trans [OF this Suc.IH] show ?case
    by (simp add: split_def Let_def same_intros)
qed simp

lemmas same_set_master = same_set_master_loop [of _ 400, folded s3c24xx_i2c_set_master_def]

text \<open>
  The idle poll sleeps 1, 2, 4, ... microseconds up to 512 and then 512 each time. If every sleep
  takes at least the time asked for, 18 sleeps use up the 5000 microseconds.
\<close>

definition delay_at :: "nat \<Rightarrow> nat" where
  "delay_at j = (if j \<le> 9 then 2 ^ j else 512)"

definition clock_ok :: "(nat \<Rightarrow> int) \<Rightarrow> bool" where
  "clock_ok t \<longleftrightarrow> (\<forall>j. t j + int (delay_at j) \<le> t (Suc j))"

definition slept :: "nat \<Rightarrow> nat" where
  "slept j = (\<Sum>i<j. delay_at i)"

lemma clock_slept: "clock_ok t \<Longrightarrow> t 0 + int (slept j) \<le> t j"
proof (induction j)
  case (Suc j)
  moreover have "t j + int (delay_at j) \<le> t (Suc j)" using Suc.prems by (simp add: clock_ok_def)
  ultimately show ?case by (simp add: slept_def)
qed (simp add: slept_def)

lemma slept_18: "slept 18 = 5119"
  by (simp add: slept_def delay_at_def numeral_eq_Suc)

lemma delay_step:
  assumes "d = of_nat (delay_at j)"
  shows "(if d < word_of_int (S3C2410_IDLE_TIMEOUT div 10) then push_bit 1 d else d) =
    (of_nat (delay_at (Suc j)) :: u32)"
proof (cases "j < 9")
  case True
  then consider "j = 0" | "j = 1" | "j = 2" | "j = 3" | "j = 4" | "j = 5" | "j = 6" | "j = 7" | "j = 8"
    by linarith
  then show ?thesis using assms
    by cases (simp_all add: delay_at_def S3C2410_IDLE_TIMEOUT_def)
next
  case False
  then show ?thesis using assms
    by (cases "j = 9") (simp_all add: delay_at_def S3C2410_IDLE_TIMEOUT_def)
qed

lemma idle_loop_ends:
  assumes clock: "clock_ok t" and "19 \<le> n + j" "j \<le> 18"
  shows "\<exists>s'. idle_loop n hw t (Suc j) (t j) (of_nat (delay_at j)) iicstat s = Inr s' \<and> same s s' \<and>
    nreads s' IICSTAT \<le> nreads s IICSTAT + (18 - j)"
  using assms(2,3)
proof (induction n arbitrary: j iicstat s)
  case (Suc n)
  show ?case
  proof (cases "has iicstat IICSTAT_START \<and> t j - t 0 < S3C2410_IDLE_TIMEOUT")
    case True
    have j: "j < 18"
    proof (rule ccontr)
      assume "\<not> j < 18"
      then have "j = 18" using Suc.prems(2) by simp
      then show False
        using True clock_slept [OF clock, of j] by (simp add: slept_18 S3C2410_IDLE_TIMEOUT_def)
    qed
    let ?d = "of_nat (delay_at j) :: u32"
    let ?r = "readl hw IICSTAT (emit (Usleep (unat ?d) (unat (2 * ?d))) s)"
    obtain u where u: "idle_loop n hw t (Suc (Suc j)) (t (Suc j)) (of_nat (delay_at (Suc j)))
        (fst ?r) (snd ?r) = Inr u" "same (snd ?r) u"
        "nreads u IICSTAT \<le> nreads (snd ?r) IICSTAT + (18 - Suc j)"
      using Suc.IH [of "Suc j" "fst ?r" "snd ?r"] Suc.prems(1) j by auto
    have "same s (snd ?r)" by (simp add: same_intros)
    from same_trans [OF this u(2)] show ?thesis
      using True u(1,3) j delay_step [OF refl, of j] by (simp add: split_def Let_def frame)
  next
    case False
    then show ?thesis by auto
  qed
qed simp

lemma same_spin_loop: "same s (snd (spin_loop n hw iicstat s))"
proof (induction n arbitrary: iicstat s)
  case (Suc n)
  have "same s (snd (readl hw IICSTAT s))" by (simp add: same_intros)
  from same_trans [OF this Suc.IH] show ?case by (simp add: split_def Let_def)
qed simp

lemma spin_loop_reads: "nreads (snd (spin_loop n hw iicstat s)) IICSTAT \<le> nreads s IICSTAT + (n - 1)"
proof (induction n arbitrary: iicstat s)
  case (Suc n)
  from Suc.IH [of "fst (readl hw IICSTAT s)" "snd (readl hw IICSTAT s)"]
  show ?case by (auto simp: split_def Let_def frame)
qed simp

lemma wait_idle_ends:
  assumes "clock_ok t" "19 \<le> n"
  shows "\<exists>s'. s3c24xx_i2c_wait_idle n hw t s = Inr s' \<and> same s s' \<and>
    nreads s' IICSTAT \<le> nreads s IICSTAT + 21"
proof -
  let ?r = "readl hw IICSTAT s"
  let ?q = "spin_loop 3 hw (fst ?r) (snd ?r)"
  obtain u where u: "idle_loop n hw t (Suc 0) (t 0) (of_nat (delay_at 0)) (fst ?q) (snd ?q) = Inr u"
      "same (snd ?q) u" "nreads u IICSTAT \<le> nreads (snd ?q) IICSTAT + 18"
    using idle_loop_ends [OF assms(1), of n 0 hw "fst ?q" "snd ?q"] assms(2) by auto
  have "same s (snd ?q)"
    using same_trans [OF same_readl [OF same_refl, of IICSTAT s hw] same_spin_loop] by simp
  from same_trans [OF this u(2)] show ?thesis
    using u(1,3) spin_loop_reads [of 3 hw "fst ?r" "snd ?r"]
    by (auto simp: s3c24xx_i2c_wait_idle_def split_def Let_def delay_at_def frame)
qed

section \<open>A transfer that every slave acknowledges\<close>

definition bus_free :: "hw \<Rightarrow> s3c24xx_i2c \<Rightarrow> bool" where
  "bus_free hw s \<longleftrightarrow> (\<exists>k<400. \<not> has (hw IICSTAT (nreads s IICSTAT + k)) IICSTAT_BUSBUSY)"

definition good_env :: "xfer_env \<Rightarrow> i2c_msg list \<Rightarrow> bool" where
  "good_env env ms \<longleftrightarrow> irqs_needed ms \<le> nirq env \<and> clock_ok (ktime env) \<and> 19 \<le> fuel env"

lemma xfer_start_at:
  assumes "ms \<noteq> []" "length ms < 2 ^ 31" "same s t" "\<not> has (quirks s) QUIRK_POLL"
  shows "at_msg (xfer_start t ms (int (length ms))) 0 0 STATE_START"
    "advance s [] 0 (xfer_start t ms (int (length ms)))"
    "msgs (xfer_start t ms (int (length ms))) = ms"
  using assms by (auto simp: at_msg_def xfer_start_def same_def advance_def)

lemma xfer_started:
  assumes "ms \<noteq> []" "length ms < 2 ^ 31" "same s t" "\<not> has (quirks s) QUIRK_POLL"
  shows "\<exists>v. s3c24xx_i2c_message_start poll hw
      (s3c24xx_i2c_enable_irq hw (xfer_start t ms (int (length ms)))) (ms ! 0) = Inr v \<and>
    at_msg v 0 0 STATE_START \<and> msgs v = ms \<and> advance s [addr_byte (ms ! 0)] 0 v"
proof -
  let ?u = "s3c24xx_i2c_enable_irq hw (xfer_start t ms (int (length ms)))"
  have u: "at_msg ?u 0 0 STATE_START" "advance s [] 0 ?u" "msgs ?u = ms"
    using xfer_start_at [OF assms] at_msg_same [OF _ same_helpers(4)]
    by (simp_all add: advance_def same_simps)
  then have "\<not> has (quirks ?u) QUIRK_POLL" by (simp add: at_msg_def)
  from message_start_irq_mode [OF this, of poll hw "ms ! 0"] u show ?thesis
    by (auto simp: at_msg_def advance_def)
qed

lemma run_transfer:
  assumes at: "at_msg s 0 0 STATE_START" and ok: "transfer_ok (msgs s)" and ack: "acked hw"
    and n: "irqs_needed (msgs s) \<le> n"
  shows "\<exists>s'. wait_done poll hw n s = Inr s' \<and> finished (int (length (msgs s))) s' \<and>
    msgs s' = deliver hw (nreads s IICDS) (msgs s) \<and>
    advance s (tl (wire (msgs s))) (rx_count (msgs s)) s'"
proof -
  obtain u where u: "wait_done poll hw (irqs_needed (msgs s)) s = Inr u"
      "finished (int (length (msgs s))) u" "msgs u = deliver hw (nreads s IICDS) (msgs s)"
      "advance s (tl (wire (msgs s))) (rx_count (msgs s)) u"
    using run_from_start [OF at ack ok, of poll] by auto
  obtain e where "n = irqs_needed (msgs s) + e" using n le_Suc_ex by blast
  then have "wait_done poll hw n s = Inr u"
    using u(1,2) by (simp add: wait_done_add wait_done_stop finished_def)
  then show ?thesis using u by blast
qed

lemma wire_Cons_tl: "ms \<noteq> [] \<Longrightarrow> addr_byte (ms ! 0) # tl (wire ms) = wire ms"
  by (cases ms) (auto simp: wire_def)

lemma doxfer_transfer:
  assumes "\<not> suspended s" and poll: "\<not> has (quirks s) QUIRK_POLL" and "bus_free hw s"
    and ack: "acked hw" and ok: "transfer_ok ms" and env: "good_env env ms"
  shows "\<exists>s'. s3c24xx_i2c_doxfer env hw s ms (int (length ms)) = Inr (int (length ms), s') \<and>
    state s' = STATE_IDLE \<and> msgs s' = deliver hw (nreads s IICDS) ms \<and>
    advance s (wire ms) (rx_count ms) s'"
proof -
  let ?num = "int (length ms)" and ?poll = "poll_loop (fuel env) hw"
  obtain t where t: "s3c24xx_i2c_set_master hw s = (0, t)" "same s t"
    using set_master_loop_result [of 400 hw s] same_set_master [of s hw] assms(3)
    by (cases "s3c24xx_i2c_set_master hw s") (auto simp: s3c24xx_i2c_set_master_def bus_free_def)
  obtain v where v: "s3c24xx_i2c_message_start ?poll hw
        (s3c24xx_i2c_enable_irq hw (xfer_start t ms ?num)) (ms ! 0) = Inr v"
      "at_msg v 0 0 STATE_START" "msgs v = ms" "advance s [addr_byte (ms ! 0)] 0 v"
    using xfer_started [OF _ _ t(2) poll, of ms ?poll hw] ok by (auto simp: transfer_ok_def)
  obtain w where w: "wait_done ?poll hw (nirq env) v = Inr w" "finished ?num w"
      "msgs w = deliver hw (nreads s IICDS) ms" "advance v (tl (wire ms)) (rx_count ms) w"
    using run_transfer [OF v(2) _ ack, of "nirq env" ?poll] ok env v(3,4)
    by (auto simp: good_env_def advance_def)
  obtain x where x: "s3c24xx_i2c_wait_idle (fuel env) hw (ktime env) w = Inr x" "same w x"
    using wait_idle_ends [of "ktime env" "fuel env" hw w] env by (auto simp: good_env_def)
  have adv: "advance s (wire ms) (rx_count ms) w"
    using advance_trans [OF v(4) w(4)] wire_Cons_tl [of ms] ok by (simp add: transfer_ok_def)
  have "doxfer_finish env hw v = Inr (?num, (if has (quirks w) QUIRK_HDMIPHY then w
      else s3c24xx_i2c_disable_bus hw x)\<lparr>state := STATE_IDLE\<rparr>)"
    using v(2) w(1,2) x(1) by (simp add: doxfer_finish_def at_msg_def finished_def)
  moreover have "get ms 0 = Inr (ms ! 0)" using ok by (simp add: transfer_ok_def)
  ultimately show ?thesis
    using assms(1) t(1) v(1) w(3) adv same_trans [OF x(2) same_disable_bus, of hw]
    by (auto simp: s3c24xx_i2c_doxfer_def same_def advance_def)
qed

end
