(* ===== verification/I2C_Safety.thy ===== *)
theory I2C_Safety
  imports I2C_Transfer
begin

text \<open>
  The S3C2440 I2C controller driver, part four: whatever status and data the controller presents,
  and however many interrupts it raises, the interrupt handler neither dereferences a null message
  pointer nor leaves a message buffer, for messages of the sizes the I2C core guarantees.
\<close>

section \<open>The invariant\<close>

text \<open>
  \<open>fits\<close>: the buffer holds what the message announces. A block read (\<open>I2C_M_RECV_LEN\<close>) takes its
  length from the slave, so its buffer has to hold any length a byte can announce. Once a message has
  been read the handler never leaves the reading state: \<open>turned ms k\<close> says that a read comes before message
  \<open>k\<close>, whose bytes are then read whatever its flags. Two things are excluded: a read
  flagged \<open>I2C_M_NOSTART\<close> that follows writes alone (the theorem \<open>nostart_read_faults\<close> shows what it does),
  and an empty message after a read, into which the next byte would be stored.
\<close>

definition fits :: "i2c_msg \<Rightarrow> bool" where
  "fits m \<longleftrightarrow> unat (msg_len m) \<le> length (msg_buf m) \<and>
     (has (msg_flags m) I2C_M_RECV_LEN \<and> msg_len m = 1 \<longrightarrow> 256 \<le> length (msg_buf m))"

definition turned :: "i2c_msg list \<Rightarrow> nat \<Rightarrow> bool" where
  "turned ms k \<longleftrightarrow> (\<exists>i < k. has (msg_flags (ms ! i)) I2C_M_RD)"

definition safe_msgs :: "i2c_msg list \<Rightarrow> bool" where
  "safe_msgs ms \<longleftrightarrow> (\<forall>k < length ms. fits (ms ! k) \<and> (turned ms k \<longrightarrow> msg_len (ms ! k) \<noteq> 0) \<and>
     (0 < k \<and> has (msg_flags (ms ! k)) I2C_M_RD \<and> has (msg_flags (ms ! k)) I2C_M_NOSTART \<longrightarrow> turned ms k))"

text \<open>
  While a transfer runs, the message pointer, index and count agree; the pointer into a message
  being read is inside its buffer; a message that was just started has sent nothing; and the
  handler reads exactly if a read has been started.
\<close>

definition irq_inv :: "s3c24xx_i2c \<Rightarrow> bool" where
  "irq_inv s \<longleftrightarrow> \<not> has (quirks s) QUIRK_POLL \<and> safe_msgs (msgs s) \<and>
     (case state s of
        STATE_IDLE \<Rightarrow> True
      | STATE_STOP \<Rightarrow> True
      | STATE_START \<Rightarrow> (\<exists>k. at_msg s k 0 STATE_START \<and> \<not> turned (msgs s) k)
      | STATE_WRITE \<Rightarrow> (\<exists>k p. at_msg s k p STATE_WRITE \<and> \<not> turned (msgs s) (Suc k))
      | STATE_READ \<Rightarrow> (\<exists>k p. at_msg s k p STATE_READ \<and> p < unat (msg_len (msgs s ! k)) \<and> turned (msgs s) (Suc k)))"

lemma irq_inv_same: "irq_inv s \<Longrightarrow> same s t \<Longrightarrow> irq_inv t"
  by (cases "state s") (auto simp: irq_inv_def same_def at_msg_def)

lemma irq_inv_stop:
  "\<not> has (quirks s) QUIRK_POLL \<Longrightarrow> safe_msgs (msgs s) \<Longrightarrow> irq_inv (s3c24xx_i2c_stop hw s ret)"
  using stop_completed [of ret s hw] by (simp add: irq_inv_def completed_def)

lemma irq_inv_at:
  assumes "at_msg s k p st" "safe_msgs (msgs s)"
    and "st = STATE_START \<Longrightarrow> p = 0 \<and> \<not> turned (msgs s) k"
    and "st = STATE_WRITE \<Longrightarrow> \<not> turned (msgs s) (Suc k)"
    and "st = STATE_READ \<Longrightarrow> p < unat (msg_len (msgs s ! k)) \<and> turned (msgs s) (Suc k)"
  shows "irq_inv s"
proof -
  from assms(1) have "state s = st" "\<not> has (quirks s) QUIRK_POLL" by (simp_all add: at_msg_def)
  with assms show ?thesis by (cases st) (auto simp: irq_inv_def)
qed

lemma turned_Suc: "turned ms (Suc k) \<longleftrightarrow> turned ms k \<or> has (msg_flags (ms ! k)) I2C_M_RD"
  by (auto simp: turned_def less_Suc_eq)

lemma turned_0 [simp]: "\<not> turned ms 0"
  by (simp add: turned_def)

lemma irq_inv_start: "at_msg s 0 0 STATE_START \<Longrightarrow> safe_msgs (msgs s) \<Longrightarrow> irq_inv s"
  using irq_inv_at [of s 0 0 STATE_START] by simp

lemma turned_update:
  assumes "msg_flags m' = msg_flags (ms ! k)"
  shows "turned (ms[k := m']) j = turned ms j"
proof -
  have "msg_flags (ms[k := m'] ! i) = msg_flags (ms ! i)" for i
    using assms by (cases "k < length ms") (auto simp: nth_list_update list_update_beyond)
  then show ?thesis by (simp add: turned_def)
qed

lemma safe_msgs_nth: "safe_msgs ms \<Longrightarrow> k < length ms \<Longrightarrow> fits (ms ! k)"
  by (simp add: safe_msgs_def)

lemma safe_msgs_len:
  "safe_msgs ms \<Longrightarrow> k < length ms \<Longrightarrow> turned ms k \<Longrightarrow> 0 < unat (msg_len (ms ! k))"
  by (simp add: safe_msgs_def unat_gt_0)

section \<open>Every interrupt keeps it\<close>

text \<open>\<open>ok r\<close>: the computation does not fault and ends in the invariant.\<close>

definition ok :: "fault + s3c24xx_i2c \<Rightarrow> bool" where
  "ok r \<longleftrightarrow> (\<exists>s. r = Inr s \<and> irq_inv s)"

lemma ok_Inr [simp]: "ok (Inr s) \<longleftrightarrow> irq_inv s"
  by (simp add: ok_def)

lemma ok_ack: "ok r \<Longrightarrow> ok (ebind r (\<lambda>s. Inr (out_ack hw s)))"
  by (auto simp: ok_def intro: irq_inv_same [OF _ same_helpers(5)])

lemma retry_write_ok:
  assumes "at_msg s k p STATE_WRITE" "safe_msgs (msgs s)" "\<not> turned (msgs s) (Suc k)"
  shows "ok (retry_write poll hw s)"
  using assms
proof (induction "length (msgs s) - k" arbitrary: s k p rule: less_induct)
  case less
  let ?m = "msgs s ! k"
  have k: "k < length (msgs s)" using less.prems(1) by (simp add: at_msg_def)
  then have m: "fits ?m" using less.prems(2) by (rule safe_msgs_nth [rotated])
  note facts = at_msg_facts [OF less.prems(1)]
  consider (byte) "p < unat (msg_len ?m)"
    | (nxt) "unat (msg_len ?m) \<le> p" "Suc k < length (msgs s)"
    | (last) "unat (msg_len ?m) \<le> p" "Suc k = length (msgs s)"
    using k by linarith
  then show ?case
  proof cases
    case byte
    let ?t = "emit (Ndelay (tx_setup s)) (writeb (msg_buf ?m ! p) IICDS (s\<lparr>msg_ptr := msg_ptr s + 1\<rparr>))"
    have "retry_write poll hw s = Inr ?t"
      using facts byte m by (simp add: retry_write.simps [of poll hw s] fits_def)
    moreover have "at_msg ?t k (Suc p) STATE_WRITE"
      using less.prems(1) byte unat_u16_less [of "msg_len ?m"] by (simp add: at_msg_def)
    ultimately show ?thesis using less.prems(2,3) by (auto intro!: irq_inv_at)
  next
    case nxt
    note n = next_msg_at [OF less.prems(1) nxt(2)]
    let ?m' = "msgs s ! Suc k"
    have cur: "cur_msg (next_msg s) = Inr ?m'" using at_msg_cur [OF n(1)] by (simp add: n(3))
    show ?thesis
    proof (cases "has (msg_flags ?m') I2C_M_NOSTART")
      case True
      have "length (msgs (next_msg s)) - Suc k < length (msgs s) - k" using nxt(2) n(3) by simp
      moreover have wr: "\<not> has (msg_flags ?m') I2C_M_RD"
        using less.prems(2,3) nxt(2) True by (auto simp: safe_msgs_def)
      ultimately have "ok (retry_write poll hw (next_msg s))"
        using less.hyps [OF _ n(1)] less.prems(2,3) n(3) by (simp add: turned_Suc)
      then show ?thesis
        using facts nxt cur True wr by (simp add: retry_write.simps [of poll hw s])
    next
      case False
      have "\<not> has (quirks (next_msg s)) QUIRK_POLL" using n(1) by (simp add: at_msg_def)
      then obtain u where u: "s3c24xx_i2c_message_start poll hw (next_msg s) ?m' = Inr u"
          "at_msg (u\<lparr>state := STATE_START\<rparr>) (Suc k) 0 STATE_START" "msgs u = msgs s"
        using message_start_irq_mode [of "next_msg s" poll hw ?m'] n(1,3)
        by (auto simp: at_msg_def)
      then show ?thesis
        using facts nxt cur False less.prems(2,3)
        by (auto simp: retry_write.simps [of poll hw s] intro!: irq_inv_at)
    qed
  next
    case last
    have "retry_write poll hw s = Inr (s3c24xx_i2c_stop hw s 0)"
      using facts last by (simp add: retry_write.simps [of poll hw s])
    then show ?thesis using less.prems by (simp add: irq_inv_stop at_msg_def)
  qed
qed

lemma prepare_read_ok:
  assumes at: "at_msg s k p STATE_READ" and safe: "safe_msgs (msgs s)" and rd: "turned (msgs s) (Suc k)"
  shows "ok (prepare_read hw s)"
proof -
  let ?m = "msgs s ! k"
  have k: "k < length (msgs s)" and poll: "\<not> has (quirks s) QUIRK_POLL"
    using at by (simp_all add: at_msg_def)
  have mid: "irq_inv t" if "same s t" "p < unat (msg_len ?m)" for t
    using irq_inv_same [OF irq_inv_at [OF at safe] that(1)] that(2) rd by simp
  have nxt: "irq_inv (next_msg s)" if "Suc k \<noteq> length (msgs s)"
  proof -
    have k': "Suc k < length (msgs s)" using k that by simp
    show ?thesis
      using next_msg_at [OF at k'] safe safe_msgs_len [OF safe k' rd] rd
      by (auto simp: turned_Suc [of _ "Suc k"] intro!: irq_inv_at)
  qed
  have stop: "irq_inv (s3c24xx_i2c_stop hw s 0)" using poll safe by (rule irq_inv_stop)
  show ?thesis
    using at_msg_facts [OF at] mid nxt stop same_helpers(1) [of s hw]
    by (cases "has (msg_flags ?m) I2C_M_RECV_LEN \<and> msg_len ?m = 1";
        cases "Suc p = unat (msg_len ?m)"; cases "unat (msg_len ?m) \<le> p")
      (auto simp: prepare_read_def is_msglast_def is_msgend_def)
qed

text \<open>The message after a byte was stored in it.\<close>

definition with_byte :: "i2c_msg \<Rightarrow> nat \<Rightarrow> u8 \<Rightarrow> i2c_msg" where
  "with_byte m p byte =
     (let m = m\<lparr>msg_buf := (msg_buf m)[p := byte]\<rparr>
      in if has (msg_flags m) I2C_M_RECV_LEN \<and> msg_len m = 1
         then m\<lparr>msg_len := msg_len m + ucast byte\<rparr> else m)"

lemma unat_1_plus_byte: "unat (1 + ucast (b :: u8) :: u16) = Suc (unat b)"
proof -
  show ?thesis using unat_u8_less [of b] by (simp add: unat_word_ariths unsigned_ucast_eq take_bit_nat_eq_self)
qed

lemma fits_with_byte: "fits m \<Longrightarrow> fits (with_byte m p b)"
  using unat_u8_less [of b] unat_1_plus_byte [of b]
  by (auto simp: fits_def with_byte_def Let_def)

lemma with_byte_len: "msg_len m \<noteq> 0 \<Longrightarrow> msg_len (with_byte m p b) \<noteq> 0"
  using unat_1_plus_byte [of b] by (auto simp: with_byte_def Let_def)

lemma with_byte_flags [simp]: "msg_flags (with_byte m p b) = msg_flags m"
  by (simp add: with_byte_def Let_def)

lemma safe_with_byte:
  assumes "safe_msgs ms" "k < length ms"
  shows "safe_msgs (ms[k := with_byte (ms ! k) p b])"
proof -
  have t: "turned (ms[k := with_byte (ms ! k) p b]) j = turned ms j" for j by (simp add: turned_update)
  show ?thesis
    using assms fits_with_byte [of "ms ! k" p b] with_byte_len [of "ms ! k" p b]
    unfolding safe_msgs_def t by (auto simp: nth_list_update)
qed

lemma read_state_ok:
  assumes at: "at_msg s k p STATE_READ" and safe: "safe_msgs (msgs s)"
    and p: "p < unat (msg_len (msgs s ! k))" and rd: "turned (msgs s) (Suc k)"
  shows "ok (read_state hw s)"
proof -
  let ?m = "msgs s ! k" and ?b = "ucast (hw IICDS (nreads s IICDS)) :: u8"
  let ?t = "(snd (readl hw IICDS s))\<lparr>msg_ptr := msg_ptr s + 1, msgs := (msgs s)[k := with_byte ?m p ?b]\<rparr>"
  have k: "k < length (msgs s)" using at by (simp add: at_msg_def)
  have m: "fits ?m" using safe k by (rule safe_msgs_nth)
  have "cur_msg (snd (readl hw IICDS s)) = Inr ?m"
    using at by (simp add: at_msg_def cur_msg_def frame)
  then have "read_state hw s = prepare_read hw ?t"
    using m p at_msg_ptr [OF at] at
    by (simp add: read_state_def split_def Let_def frame fits_def set_cur_msg_def with_byte_def
        at_msg_def)
  moreover have "at_msg ?t k (Suc p) STATE_READ"
    using at p unat_u16_less [of "msg_len ?m"] by (simp add: at_msg_def frame)
  moreover have "safe_msgs (msgs ?t)" using safe_with_byte [OF safe k] by simp
  moreover have "turned (msgs ?t) (Suc k)" using rd by (simp add: turned_update)
  ultimately show ?thesis by (simp add: prepare_read_ok)
qed

lemma write_state_ok:
  assumes at: "at_msg s k p STATE_WRITE" and safe: "safe_msgs (msgs s)" and wr: "\<not> turned (msgs s) (Suc k)"
  shows "ok (write_state poll hw s iicstat)"
  using at_msg_cur [OF at] retry_write_ok [OF at safe wr] irq_inv_stop [of s] at safe
  by (auto simp: write_state_def at_msg_def)

lemma start_state_ok:
  assumes at: "at_msg s k 0 STATE_START" and safe: "safe_msgs (msgs s)" and wr: "\<not> turned (msgs s) k"
  shows "ok (start_state poll hw s iicstat)"
proof -
  let ?m = "msgs s ! k"
  let ?st = "if has (msg_flags ?m) I2C_M_RD then STATE_READ else STATE_WRITE"
  have poll: "\<not> has (quirks s) QUIRK_POLL" using at by (simp add: at_msg_def)
  have stop: "irq_inv (s3c24xx_i2c_stop hw s r)" "irq_inv (s3c24xx_i2c_stop hw (s\<lparr>state := st\<rparr>) r)" for st r
    using poll safe by (simp_all add: irq_inv_stop)
  have rd: "ok (prepare_read hw (s\<lparr>state := STATE_READ\<rparr>))" if "has (msg_flags ?m) I2C_M_RD"
    by (rule prepare_read_ok [OF at_msg_state [OF at]]) (use that safe in \<open>simp_all add: turned_Suc\<close>)
  have wr: "ok (write_state poll hw (s\<lparr>state := STATE_WRITE\<rparr>) iicstat)" if "\<not> has (msg_flags ?m) I2C_M_RD"
    by (rule write_state_ok [OF at_msg_state [OF at]]) (use that safe wr in \<open>simp_all add: turned_Suc\<close>)
  show ?thesis
    using at_msg_cur [OF at] stop rd wr by (auto simp: start_state_def Let_def)
qed

lemma nextbyte_ok: "irq_inv s \<Longrightarrow> ok (i2c_s3c_irq_nextbyte poll hw s iicstat)"
proof -
  assume inv: "irq_inv s"
  then have safe: "safe_msgs (msgs s)" by (simp add: irq_inv_def)
  have "ok (start_state poll hw s iicstat)" if "state s = STATE_START"
    using inv that start_state_ok [OF _ safe] by (auto simp: irq_inv_def)
  moreover have "ok (write_state poll hw s iicstat)" if "state s = STATE_WRITE"
    using inv that write_state_ok [OF _ safe] by (auto simp: irq_inv_def)
  moreover have "ok (read_state hw s)" if "state s = STATE_READ"
    using inv that read_state_ok [OF _ safe] by (auto simp: irq_inv_def)
  ultimately show ?thesis
    using inv irq_inv_same [OF inv same_helpers(3)] irq_inv_same [OF _ same_helpers(5)]
    by (cases "state s") (simp_all add: i2c_s3c_irq_nextbyte_def ok_ack)
qed

lemma irq_ok: "irq_inv s \<Longrightarrow> ok (s3c24xx_i2c_irq poll hw s)"
proof -
  assume inv: "irq_inv s"
  have "same s (snd (readl hw IICSTAT s))" by (simp add: same_def frame)
  then have "irq_inv (snd (readl hw IICSTAT s))" by (rule irq_inv_same [OF inv])
  then show ?thesis
    using nextbyte_ok irq_inv_same [OF _ same_helpers(5)] by (simp add: irq_unfold Let_def)
qed

end
