(* ===== verification/I2C_Props.thy ===== *)
theory I2C_Props
  imports I2C_Xfer I2C_Safety
begin

text \<open>
  The properties of the S3C2440 I2C controller driver that span its parts: transfers from the
  entry point to the bus, the error paths, memory safety, and two defects of the
  code as theorems.
\<close>

section \<open>Successful transfers\<close>

text \<open>C1: A transfer of writes followed by at most one read, on a free bus and with every byte
  acknowledged, returns the number of messages, puts exactly the address bytes and data bytes of the
  messages on the bus in order, fills the read buffer with the bytes received and leaves
  the driver idle; so \<open>s3c24xx_i2c_xfer\<close> does what the I2C core asks of \<open>master_xfer\<close>.\<close>
theorem xfer_transfers:
  assumes "\<not> suspended s" "\<not> has (quirks s) QUIRK_POLL" "bus_free hw s" "acked hw"
    and "transfer_ok ms" "good_env (envs 0) ms" "0 < retries"
  shows "\<exists>s'. s3c24xx_i2c_xfer retries 0 envs hw s ms (int (length ms)) = Inr (int (length ms), s') \<and>
    ds_writes s' = ds_writes s @ wire ms \<and> msgs s' = deliver hw (nreads s IICDS) ms \<and>
    state s' = STATE_IDLE"
proof -
  let ?s = "emit ClkEnable s"
  obtain t where t: "s3c24xx_i2c_doxfer (envs 0) hw ?s ms (int (length ms)) = Inr (int (length ms), t)"
      "state t = STATE_IDLE" "msgs t = deliver hw (nreads s IICDS) ms" "advance ?s (wire ms) (rx_count ms) t"
    using doxfer_transfer [of ?s hw ms "envs 0"] assms by (auto simp: bus_free_def)
  have "int (length ms) \<noteq> - EAGAIN" by simp
  with t assms(7) show ?thesis
    by (cases retries) (simp_all add: s3c24xx_i2c_xfer_def advance_def)
qed

section \<open>Example controller and transaction\<close>

text \<open>
  A controller that always acknowledges and receives 64, 65, ...; the random read of an EEPROM: a
  write of the offset, then a read of two bytes.
\<close>

definition hw_ok :: hw where
  "hw_ok r k = (case r of IICDS \<Rightarrow> 64 + of_nat k | _ \<Rightarrow> 0)"

definition i2c0 :: s3c24xx_i2c where
  "i2c0 = \<lparr>quirks = QUIRK_S3C2440, suspended = False, msgs = [], msg = None, msg_num = 0,
     msg_idx = 0, msg_ptr = 0, tx_setup = 50, state = STATE_IDLE, nreads = (\<lambda>_. 0), trace = []\<rparr>"

definition random_read :: "i2c_msg list" where
  "random_read =
     [\<lparr>msg_addr = 0x50, msg_flags = 0, msg_len = 1, msg_buf = [16]\<rparr>,
      \<lparr>msg_addr = 0x50, msg_flags = I2C_M_RD, msg_len = 2, msg_buf = [0, 0]\<rparr>]"

definition env_ok :: xfer_env where
  "env_ok = \<lparr>nirq = 10, ktime = (\<lambda>j. 1000 * int j), fuel = 20\<rparr>"

lemma delay_at_le: "delay_at j \<le> 512"
  using power_increasing [of j 9 "2 :: nat"] by (auto simp: delay_at_def)

lemma clock_ok_1000: "clock_ok (\<lambda>j. 1000 * int j)"
  by (auto simp: clock_ok_def intro: order_trans [OF delay_at_le])

lemma example_facts:
  "\<not> suspended i2c0" "\<not> has (quirks i2c0) QUIRK_POLL" "bus_free hw_ok i2c0" "acked hw_ok"
  "transfer_ok random_read" "good_env env_ok random_read" "length random_read = 2"
  by (auto simp: i2c0_def hw_ok_def random_read_def env_ok_def bus_free_def acked_def transfer_ok_def
      intro!: exI [of _ 0] simp: good_env_def plain_write_def plain_read_def irqs_needed_def clock_ok_1000 i2c_consts)

theorem xfer_transfers_witness:
  "\<exists>s'. s3c24xx_i2c_xfer 2 0 (\<lambda>_. env_ok) hw_ok i2c0 random_read 2 = Inr (2, s') \<and>
     ds_writes s' = [0xA0, 16, 0xA1] \<and> map msg_buf (msgs s') = [[16], [64, 65]]"
proof -
  have w: "wire random_read = [0xA0, 16, 0xA1]"
    by (simp add: wire_def random_read_def addr_byte_def start_bits_def tx_bytes_def i2c_consts)
  have d: "map msg_buf (deliver hw_ok 0 random_read) = [[16], [64, 65]]"
    by (simp add: deliver_def random_read_def rx_count_def fill_def overwrite_def hw_ok_def i2c_consts)
  have z: "ds_writes i2c0 = []" "nreads i2c0 IICDS = 0" by (simp_all add: i2c0_def ds_writes_def)
  show ?thesis
    using xfer_transfers [of i2c0 hw_ok random_read "\<lambda>_. env_ok" 2] example_facts w d z by auto
qed

section \<open>Memory safety\<close>

lemma random_read_safe: "safe_msgs random_read"
  by (auto simp: safe_msgs_def fits_def random_read_def less_Suc_eq i2c_consts)

lemma wait_done_ok: "irq_inv s \<Longrightarrow> ok (wait_done poll hw n s)"
proof (induction n arbitrary: s)
  case (Suc n)
  obtain t where "s3c24xx_i2c_irq poll hw s = Inr t" "irq_inv t"
    using irq_ok [OF Suc.prems] by (auto simp: ok_def)
  with Suc show ?case by (simp add: wait_done.simps(2))
qed simp

text \<open>An attempt that does not get the bus leaves everything, and one that does runs interrupts from the first message.\<close>

lemma bus_free_master: "fst (s3c24xx_i2c_set_master hw s) = 0 \<longleftrightarrow> bus_free hw s"
  using set_master_loop_result [of 400 hw s] by (auto simp: s3c24xx_i2c_set_master_def bus_free_def)

lemma doxfer_no_bus:
  assumes "suspended s \<or> \<not> bus_free hw s"
  shows "\<exists>ret s'. s3c24xx_i2c_doxfer env hw s ms num = Inr (ret, s') \<and> same s s'"
  using assms same_set_master [of s hw] bus_free_master [of hw s]
  by (auto simp: s3c24xx_i2c_doxfer_def split_def Let_def)

lemma doxfer_runs:
  assumes "\<not> has (quirks s) QUIRK_POLL" "safe_msgs ms" "ms \<noteq> []" "length ms < 2 ^ 31"
    and "clock_ok (ktime env)" "19 \<le> fuel env" and "\<not> suspended s" "bus_free hw s"
  shows "\<exists>v w ret s'. s3c24xx_i2c_doxfer env hw s ms (int (length ms)) = Inr (ret, s') \<and> irq_inv v \<and> msgs v = ms \<and>
    wait_done (poll_loop (fuel env) hw) hw (nirq env) v = Inr w \<and> irq_inv w \<and> msgs s' = msgs w \<and>
    quirks s' = quirks w"
proof -
  obtain t where t: "s3c24xx_i2c_set_master hw s = (0, t)" "same s t"
    using assms(8) same_set_master [of s hw] bus_free_master [of hw s] by (cases "s3c24xx_i2c_set_master hw s") auto
  let ?poll = "poll_loop (fuel env) hw"
  obtain v where v: "s3c24xx_i2c_message_start ?poll hw
      (s3c24xx_i2c_enable_irq hw (xfer_start t ms (int (length ms)))) (ms ! 0) = Inr v" "irq_inv v" "msgs v = ms"
    using xfer_started [OF assms(3,4) t(2) assms(1), of ?poll hw] assms(2) by (auto simp: irq_inv_start)
  obtain w where w: "wait_done ?poll hw (nirq env) v = Inr w" "irq_inv w"
    using wait_done_ok [OF v(2), of ?poll hw "nirq env"] by (auto simp: ok_def)
  obtain x where x: "s3c24xx_i2c_wait_idle (fuel env) hw (ktime env) w = Inr x" "same w x"
    using wait_idle_ends [OF assms(5,6)] by blast
  have quirk: "\<not> has (quirks v) QUIRK_POLL" using v(2) by (simp add: irq_inv_def)
  have x': "same w (s3c24xx_i2c_disable_bus hw x)" by (rule same_trans [OF x(2) same_disable_bus])
  have "\<exists>ret s'. doxfer_finish env hw v = Inr (ret, s') \<and> msgs s' = msgs w \<and> quirks s' = quirks w"
    using w(1) x(1) x' quirk by (simp add: doxfer_finish_def Let_def same_def)
  then show ?thesis using assms(3,7) t(1) v w by (auto simp: s3c24xx_i2c_doxfer_def)
qed

lemma doxfer_returns:
  assumes "\<not> has (quirks s) QUIRK_POLL" "safe_msgs ms" "ms \<noteq> []" "length ms < 2 ^ 31"
    and "clock_ok (ktime env)" "19 \<le> fuel env"
  shows "\<exists>ret s'. s3c24xx_i2c_doxfer env hw s ms (int (length ms)) = Inr (ret, s') \<and> \<not> has (quirks s') QUIRK_POLL"
proof (cases "suspended s \<or> \<not> bus_free hw s")
  case True
  then show ?thesis using doxfer_no_bus [OF True, of env ms "int (length ms)"] assms(1) by (auto simp: same_def)
next
  case False
  then show ?thesis using doxfer_runs [OF assms, of hw] by (auto simp: irq_inv_def)
qed

lemma xfer_loop_returns:
  assumes "safe_msgs ms" "ms \<noteq> []" "length ms < 2 ^ 31" "\<forall>k. clock_ok (ktime (envs k)) \<and> 19 \<le> fuel (envs k)"
  shows "\<not> has (quirks s) QUIRK_POLL \<Longrightarrow> \<exists>ret s'. xfer_loop n envs k hw s ms (int (length ms)) = Inr (ret, s')"
proof (induction n arbitrary: k s)
  case (Suc n)
  have "clock_ok (ktime (envs k))" "19 \<le> fuel (envs k)" using assms(4) by blast+
  from doxfer_returns [OF Suc.prems assms(1-3) this] obtain ret t where
    t: "s3c24xx_i2c_doxfer (envs k) hw s ms (int (length ms)) = Inr (ret, t)" "\<not> has (quirks t) QUIRK_POLL" by blast
  from t(2) Suc.IH [of "emit (Udelay 100) t" "Suc k"] show ?case by (simp add: t(1))
qed simp

text \<open>A single attempt never faults.\<close>

theorem doxfer_never_faults:
  assumes "\<not> has (quirks s) QUIRK_POLL" "safe_msgs ms" "ms \<noteq> []" "length ms < 2 ^ 31"
    and "clock_ok (ktime env)" "19 \<le> fuel env"
  shows "\<exists>ret s'. s3c24xx_i2c_doxfer env hw s ms (int (length ms)) = Inr (ret, s')"
  using doxfer_returns [OF assms] by blast

text \<open>A controller that answers all ones: busy to the last poll, every byte refused.\<close>

theorem doxfer_never_faults_witness:
  "\<exists>ret s'. s3c24xx_i2c_doxfer env_ok (\<lambda>_ _. - 1) i2c0 random_read 2 = Inr (ret, s')"
proof -
  have "safe_msgs random_read" "random_read \<noteq> []"
    by (simp_all add: random_read_safe) (simp add: random_read_def)
  moreover have "clock_ok (ktime env_ok)" "19 \<le> fuel env_ok"
    by (simp_all add: env_ok_def clock_ok_1000)
  ultimately show ?thesis
    using doxfer_never_faults [of i2c0 random_read env_ok "\<lambda>_ _. - 1"] example_facts by simp
qed

text \<open>C2: Whatever the controller answers, and however many interrupts it raises, an interrupt-driven
  transfer, with all its attempts, returns: without a null dereference or an access outside a message buffer, and
  with every wait for the idle bus over. The messages may be any of which: the buffers hold what they announce (and
  256 bytes for a block read whose length the slave sends); the first read, unless it is the first message,
  is not flagged \<open>I2C_M_NOSTART\<close>, which the adapter offers but faults on; and no message
  after a read is empty.\<close>
theorem xfer_never_faults:
  assumes "\<not> has (quirks s) QUIRK_POLL" "safe_msgs ms" "ms \<noteq> []" "length ms < 2 ^ 31"
    and "\<forall>k. clock_ok (ktime (envs k)) \<and> 19 \<le> fuel (envs k)"
  shows "\<exists>ret s'. s3c24xx_i2c_xfer retries clk_ret envs hw s ms (int (length ms)) = Inr (ret, s')"
  using xfer_loop_returns [OF assms(2-5), of "emit ClkEnable s"] assms(1) by (simp add: s3c24xx_i2c_xfer_def)

theorem xfer_never_faults_witness:
  "\<exists>ret s'. s3c24xx_i2c_xfer 2 0 (\<lambda>_. env_ok) (\<lambda>_ k. of_nat k * 0x21) i2c0 random_read 2 = Inr (ret, s')"
proof -
  have "safe_msgs random_read" "random_read \<noteq> []"
    by (simp_all add: random_read_safe) (simp add: random_read_def)
  moreover have "clock_ok (ktime env_ok)" "19 \<le> fuel env_ok" by (simp_all add: env_ok_def clock_ok_1000)
  ultimately show ?thesis
    using xfer_never_faults [of i2c0 random_read "\<lambda>_. env_ok" 2 0 "\<lambda>_ k. of_nat k * 0x21"] example_facts by simp
qed

text \<open>C4: The handler keeps its invariant under every sequence of interrupts, also those that arrive
  after the transfer is over.\<close>
theorem irqs_keep_invariant:
  assumes "irq_inv s"
  shows "\<exists>s'. run_irqs poll hw n s = Inr s' \<and> irq_inv s'"
  using assms
proof (induction n arbitrary: s)
  case (Suc n)
  obtain t where "s3c24xx_i2c_irq poll hw s = Inr t" "irq_inv t"
    using irq_ok [OF Suc.prems] by (auto simp: ok_def)
  with Suc.IH show ?case by simp
qed simp

theorem irqs_keep_invariant_witness:
  "\<exists>s'. run_irqs (poll_loop 1 hw_ok) hw_ok 7 (xfer_start i2c0 random_read 2) = Inr s' \<and> irq_inv s'"
proof -
  have "irq_inv (xfer_start i2c0 random_read 2)"
    by (rule irq_inv_at [of _ 0 0 STATE_START])
      (simp_all add: xfer_start_def i2c0_def at_msg_def random_read_safe, simp_all add: random_read_def i2c_consts)
  then show ?thesis using irqs_keep_invariant by blast
qed

section \<open>Error paths\<close>

lemma readl_reads: "nreads (snd (readl hw r s)) r = Suc (nreads s r)"
  by (simp add: readl_def)

lemma set_master_busy_reads:
  "(\<forall>k. has (hw IICSTAT k) IICSTAT_BUSBUSY) \<Longrightarrow>
    nreads (snd (set_master_loop n hw s)) IICSTAT = nreads s IICSTAT + n"
  by (induction n arbitrary: s) (simp_all add: split_def Let_def frame)

lemma doxfer_busy:
  assumes "\<forall>k. has (hw IICSTAT k) IICSTAT_BUSBUSY" "\<not> suspended s"
  shows "s3c24xx_i2c_doxfer env hw s ms num = Inr (- EAGAIN, snd (s3c24xx_i2c_set_master hw s))"
  using assms set_master_loop_result [of 400 hw s]
  by (simp add: s3c24xx_i2c_doxfer_def s3c24xx_i2c_set_master_def split_def)

lemma xfer_loop_busy:
  assumes busy: "\<forall>k. has (hw IICSTAT k) IICSTAT_BUSBUSY" and "\<not> suspended t"
  shows "\<exists>s'. xfer_loop n envs k hw t ms num = Inr (- EREMOTEIO, s') \<and>
    ds_writes s' = ds_writes t \<and> nreads s' IICSTAT = nreads t IICSTAT + 400 * n"
  using assms(2)
proof (induction n arbitrary: k t)
  case (Suc n)
  let ?u = "emit (Udelay 100) (snd (s3c24xx_i2c_set_master hw t))"
  have u: "\<not> suspended ?u" "ds_writes ?u = ds_writes t" "nreads ?u IICSTAT = nreads t IICSTAT + 400"
    using same_set_master [of t hw] Suc.prems set_master_busy_reads [of hw 400 t] busy
    by (simp_all add: same_def s3c24xx_i2c_set_master_def)
  show ?case
    using Suc.IH [OF u(1), of "Suc k"] u(2,3) Suc.prems doxfer_busy [of hw t] busy by auto
qed simp

text \<open>C27: On a bus that stays busy \<open>xfer\<close> tries \<open>retries\<close> times, polls 400 times in each, puts
  nothing on the bus, and returns \<open>-EREMOTEIO\<close>.\<close>
theorem xfer_bus_busy:
  assumes busy: "\<forall>k. has (hw IICSTAT k) IICSTAT_BUSBUSY" and "\<not> suspended s"
  shows "\<exists>s'. s3c24xx_i2c_xfer retries 0 envs hw s ms num = Inr (- EREMOTEIO, s') \<and>
    ds_writes s' = ds_writes s \<and> nreads s' IICSTAT = nreads s IICSTAT + 400 * retries"
  using busy xfer_loop_busy [of hw "emit ClkEnable s" retries envs 0 ms num] assms(2)
  by (simp add: s3c24xx_i2c_xfer_def)

theorem xfer_bus_busy_witness:
  "\<exists>s'. s3c24xx_i2c_xfer 2 0 (\<lambda>_. env_ok) (\<lambda>_ _. 0x20) i2c0 random_read 2 = Inr (- EREMOTEIO, s') \<and>
     ds_writes s' = [] \<and> nreads s' IICSTAT = 800"
  using xfer_bus_busy [of "\<lambda>_ _. 0x20" i2c0 2 "\<lambda>_. env_ok" random_read 2]
  by (simp add: i2c0_def ds_writes_def i2c_consts)

lemma nak_step:
  assumes at: "at_msg s k p st" "st = STATE_START \<or> st = STATE_WRITE"
    and nak: "has (hw IICSTAT (nreads s IICSTAT)) IICSTAT_LASTBIT"
    and ign: "\<not> has (msg_flags (msgs s ! k)) I2C_M_IGNORE_NAK"
  shows "\<exists>s'. s3c24xx_i2c_irq poll hw s = Inr s' \<and>
    finished (if st = STATE_START then - ENXIO else - ECONNREFUSED) s' \<and>
    msgs s' = msgs s \<and> advance s [] 0 s'"
proof -
  let ?t = "snd (readl hw IICSTAT s)" and ?ret = "if st = STATE_START then - ENXIO else - ECONNREFUSED"
  have at_t: "at_msg ?t k p st" using at(1) by (rule readl_stat_at_msg)
  have st: "state s = st" "state ?t = st" using at(1) at_t by (simp_all add: at_msg_def)
  have msgs: "msgs ?t = msgs s" by (simp add: frame)
  have "s3c24xx_i2c_irq poll hw s = Inr (out_ack hw (s3c24xx_i2c_stop hw ?t ?ret))"
    using at(2) st at_msg_cur [OF at_t] nak ign
    by (auto simp: irq_unfold i2c_s3c_irq_nextbyte_def start_state_def write_state_def msgs)
  moreover have "sint (word_of_int ?ret :: u32) = ?ret" by (rule sint_word_of_int_errno) auto
  ultimately show ?thesis
    using completed_ack [of ?ret ?t hw] readl_stat_advance [of s hw]
    by (auto simp: completed_def finished_def advance_def msgs)
qed

text \<open>C24: A byte that the slave refuses ends the transfer in that interrupt: with \<open>-ENXIO\<close> for the
  address byte, \<open>-ECONNREFUSED\<close> for a data byte, unless the message ignores refusals. Nothing more
  goes on the bus and no buffer changes.\<close>
theorem irq_nak:
  assumes at: "at_msg s k p st" "st = STATE_START \<or> st = STATE_WRITE"
    and nak: "has (hw IICSTAT (nreads s IICSTAT)) IICSTAT_LASTBIT"
    and ign: "\<not> has (msg_flags (msgs s ! k)) I2C_M_IGNORE_NAK"
  shows "\<exists>s'. s3c24xx_i2c_irq poll hw s = Inr s' \<and>
    finished (if st = STATE_START then - ENXIO else - ECONNREFUSED) s' \<and>
    msgs s' = msgs s \<and> advance s [] 0 s'"
  using assms by (rule nak_step)

theorem irq_nak_witness:
  "\<exists>s'. s3c24xx_i2c_irq (poll_loop 1 hw_ok) (\<lambda>_ _. 1) (xfer_start i2c0 random_read 2) = Inr s' \<and>
     finished (- ENXIO) s' \<and> map msg_buf (msgs s') = [[16], [0, 0]]"
proof -
  have "at_msg (xfer_start i2c0 random_read 2) 0 0 STATE_START"
    by (simp add: xfer_start_def i2c0_def random_read_def at_msg_def i2c_consts)
  moreover have "has ((1 :: u32)) IICSTAT_LASTBIT"
    and "msgs (xfer_start i2c0 random_read 2) = random_read"
    and "\<not> has (msg_flags (random_read ! 0)) I2C_M_IGNORE_NAK"
    by (simp_all add: xfer_start_def i2c0_def random_read_def i2c_consts)
  ultimately show ?thesis
    using irq_nak [of "xfer_start i2c0 random_read 2" 0 0 STATE_START "\<lambda>_ _. 1" "poll_loop 1 hw_ok"]
    by (auto simp: random_read_def)
qed

lemma wait_done_nak:
  assumes at: "at_msg s k 0 STATE_START" and nak: "\<forall>j. has (hw IICSTAT j) IICSTAT_LASTBIT"
    and ign: "\<not> has (msg_flags (msgs s ! k)) I2C_M_IGNORE_NAK" and n: "0 < n"
  shows "\<exists>s'. wait_done poll hw n s = Inr s' \<and> finished (- ENXIO) s' \<and> msgs s' = msgs s \<and>
    advance s [] 0 s'"
proof -
  obtain s' where s': "s3c24xx_i2c_irq poll hw s = Inr s'" "finished (- ENXIO) s'" "msgs s' = msgs s"
      "advance s [] 0 s'"
    using nak_step [OF at _ _ ign, of hw poll] nak by auto
  obtain n' where "n = Suc n'" using n by (cases n) auto
  then show ?thesis
    using s' wait_done_Suc [OF at s'(1), of n'] by (simp add: wait_done_stop finished_def)
qed

text \<open>C25: A device that does not answer to its address makes the transfer return \<open>-ENXIO\<close> after its
  address byte alone, with the messages untouched: how the I2C core finds out that nobody is there.\<close>
theorem xfer_address_nak:
  assumes "\<not> suspended s" and poll: "\<not> has (quirks s) QUIRK_POLL" and "bus_free hw s"
    and nak: "\<forall>j. has (hw IICSTAT j) IICSTAT_LASTBIT"
    and ms: "ms \<noteq> []" "length ms < 2 ^ 31" "\<not> has (msg_flags (ms ! 0)) I2C_M_IGNORE_NAK"
    and env: "0 < nirq (envs 0)" "clock_ok (ktime (envs 0))" "19 \<le> fuel (envs 0)" and "0 < retries"
  shows "\<exists>s'. s3c24xx_i2c_xfer retries 0 envs hw s ms (int (length ms)) = Inr (- ENXIO, s') \<and>
    ds_writes s' = ds_writes s @ [addr_byte (ms ! 0)] \<and> msgs s' = ms \<and> state s' = STATE_IDLE"
proof -
  let ?num = "int (length ms)" and ?poll = "poll_loop (fuel (envs 0)) hw" and ?s = "emit ClkEnable s"
  obtain t where t: "s3c24xx_i2c_set_master hw ?s = (0, t)" "same ?s t"
    using set_master_loop_result [of 400 hw ?s] same_set_master [of ?s hw] assms(3)
    by (cases "s3c24xx_i2c_set_master hw ?s") (auto simp: s3c24xx_i2c_set_master_def bus_free_def)
  obtain v where v: "s3c24xx_i2c_message_start ?poll hw
        (s3c24xx_i2c_enable_irq hw (xfer_start t ms ?num)) (ms ! 0) = Inr v"
      "at_msg v 0 0 STATE_START" "msgs v = ms" "advance ?s [addr_byte (ms ! 0)] 0 v"
    using xfer_started [OF ms(1,2) t(2), of ?poll hw] poll by auto
  obtain w where w: "wait_done ?poll hw (nirq (envs 0)) v = Inr w" "finished (- ENXIO) w"
      "msgs w = ms" "advance v [] 0 w"
    using wait_done_nak [where hw = hw and poll = ?poll, OF v(2) nak _ env(1)] ms(3) v(3) by auto
  obtain x where x: "s3c24xx_i2c_wait_idle (fuel (envs 0)) hw (ktime (envs 0)) w = Inr x" "same w x"
    using wait_idle_ends [OF env(2,3), of hw w] by auto
  have "doxfer_finish (envs 0) hw v = Inr (- ENXIO, (if has (quirks w) QUIRK_HDMIPHY then w
      else s3c24xx_i2c_disable_bus hw x)\<lparr>state := STATE_IDLE\<rparr>)"
    using v(2) w(1,2) x(1) by (simp add: doxfer_finish_def at_msg_def finished_def)
  moreover have "get ms 0 = Inr (ms ! 0)" using ms(1) by simp
  ultimately have "\<exists>u. s3c24xx_i2c_doxfer (envs 0) hw ?s ms ?num = Inr (- ENXIO, u) \<and>
      state u = STATE_IDLE \<and> msgs u = ms \<and> advance ?s [addr_byte (ms ! 0)] 0 u"
    using assms(1) t(1) v(1) w(3) advance_trans [OF v(4) w(4)] same_trans [OF x(2) same_disable_bus, of hw]
    by (auto simp: s3c24xx_i2c_doxfer_def same_def advance_def)
  then show ?thesis
    using assms(11) by (cases retries) (auto simp: s3c24xx_i2c_xfer_def advance_def)
qed

theorem xfer_address_nak_witness:
  "\<exists>s'. s3c24xx_i2c_xfer 2 0 (\<lambda>_. env_ok) (\<lambda>_ _. 1) i2c0 random_read 2 = Inr (- ENXIO, s') \<and>
     ds_writes s' = [0xA0] \<and> msgs s' = random_read"
proof -
  have "bus_free (\<lambda>_ _. 1) i2c0" "\<forall>j. has ((\<lambda>_ _. 1 :: u32) IICSTAT (j :: nat)) IICSTAT_LASTBIT"
    by (auto simp: bus_free_def i2c_consts intro: exI [of _ 0])
  moreover have "random_read \<noteq> []" "\<not> has (msg_flags (random_read ! 0)) I2C_M_IGNORE_NAK"
    and "addr_byte (random_read ! 0) = 0xA0" and "ds_writes i2c0 = []"
    by (simp_all add: random_read_def i2c0_def ds_writes_def addr_byte_def start_bits_def i2c_consts)
  moreover have "0 < nirq env_ok" "clock_ok (ktime env_ok)" "19 \<le> fuel env_ok"
    by (simp_all add: env_ok_def clock_ok_1000)
  ultimately show ?thesis
    using xfer_address_nak [of i2c0 "\<lambda>_ _. 1" random_read "\<lambda>_. env_ok" 2] example_facts by auto
qed

section \<open>Polling loops\<close>

text \<open>Taking the bus succeeds exactly when one of the first 400 polls finds it free, and otherwise
  reports a time-out; either way only the register is read.\<close>
theorem set_master_result:
  "\<exists>s'. s3c24xx_i2c_set_master hw s = (if bus_free hw s then 0 else - ETIMEDOUT, s') \<and> same s s'"
  using set_master_loop_result [of 400 hw s] same_set_master [of s hw]
  by (cases "s3c24xx_i2c_set_master hw s") (simp add: s3c24xx_i2c_set_master_def bus_free_def)

text \<open>C28: If every sleep takes at least the time asked for, the wait for the idle bus ends: after at
  most 21 reads of the status (1, 2 in the busy loop, 18 in the loop with the exponential
  back-off), with 19 units of fuel.\<close>
theorem wait_idle_terminates:
  assumes "clock_ok t" "19 \<le> n"
  shows "\<exists>s'. s3c24xx_i2c_wait_idle n hw t s = Inr s' \<and> nreads s' IICSTAT \<le> nreads s IICSTAT + 21"
  using wait_idle_ends [OF assms] by blast

theorem wait_idle_terminates_witness:
  "\<exists>s'. s3c24xx_i2c_wait_idle 19 (\<lambda>_ _. 0x20) (\<lambda>j. 1000 * int j) i2c0 = Inr s' \<and>
     nreads s' IICSTAT \<le> 21"
  using wait_idle_terminates [OF clock_ok_1000, of 19 "\<lambda>_ _. 0x20" i2c0] by (simp add: i2c0_def)

end
