(* ===== verification/I2C_Clock.thy ===== *)
theory I2C_Clock
  imports I2C_Props
begin

text \<open>
  The S3C2440 I2C controller driver, part five: the gate of the controller's clock is opened and
  closed in pairs on every path through a transfer.
\<close>

section \<open>The clock of the controller\<close>

fun clk_of :: "io \<Rightarrow> int" where
  "clk_of ClkEnable = 1"
| "clk_of ClkDisable = - 1"
| "clk_of _ = 0"

definition clk_depth :: "s3c24xx_i2c \<Rightarrow> int" where
  "clk_depth s = sum_list (map clk_of (trace s))"

lemma clk_depth_emit [simp]: "clk_depth (emit e s) = clk_depth s + clk_of e"
  by (simp add: clk_depth_def)

lemma clk_depth_update [simp]:
  "clk_depth (s\<lparr>msgs := a\<rparr>) = clk_depth s" "clk_depth (s\<lparr>msg := b\<rparr>) = clk_depth s"
  "clk_depth (s\<lparr>msg_num := c\<rparr>) = clk_depth s" "clk_depth (s\<lparr>msg_idx := c\<rparr>) = clk_depth s"
  "clk_depth (s\<lparr>msg_ptr := c\<rparr>) = clk_depth s" "clk_depth (s\<lparr>state := d\<rparr>) = clk_depth s"
  "clk_depth (s\<lparr>nreads := e\<rparr>) = clk_depth s"
  by (simp_all add: clk_depth_def)

lemma clk_depth_readl [simp]: "clk_depth (snd (readl hw r s)) = clk_depth s"
  by (simp add: readl_def)

lemma clk_depth_helpers [simp]:
  "clk_depth (s3c24xx_i2c_disable_ack hw s) = clk_depth s"
  "clk_depth (s3c24xx_i2c_enable_ack hw s) = clk_depth s"
  "clk_depth (s3c24xx_i2c_disable_irq hw s) = clk_depth s"
  "clk_depth (s3c24xx_i2c_enable_irq hw s) = clk_depth s"
  "clk_depth (out_ack hw s) = clk_depth s"
  "clk_depth (s3c24xx_i2c_disable_bus hw s) = clk_depth s"
  "clk_depth (next_msg s) = clk_depth s"
  "clk_depth (set_cur_msg m s) = clk_depth s"
  "clk_depth (xfer_start s ms num) = clk_depth s"
  by (simp_all add: s3c24xx_i2c_disable_ack_def s3c24xx_i2c_enable_ack_def s3c24xx_i2c_disable_irq_def
      s3c24xx_i2c_enable_irq_def out_ack_def s3c24xx_i2c_disable_bus_def next_msg_def set_cur_msg_def
      xfer_start_def split_def Let_def split: option.splits)

lemma clk_depth_stop [simp]: "clk_depth (s3c24xx_i2c_stop hw s ret) = clk_depth s"
  by (simp add: s3c24xx_i2c_stop_def s3c24xx_i2c_master_complete_def split_def Let_def)

text \<open>\<open>quiet r s\<close>: a computation from \<open>s\<close> that returns leaves the clock as it was.\<close>

definition quiet :: "fault + s3c24xx_i2c \<Rightarrow> s3c24xx_i2c \<Rightarrow> bool" where
  "quiet r s \<longleftrightarrow> (\<forall>s'. r = Inr s' \<longrightarrow> clk_depth s' = clk_depth s)"

lemma quietD: "quiet r s \<Longrightarrow> r = Inr s' \<Longrightarrow> clk_depth s' = clk_depth s"
  by (simp add: quiet_def)

lemma quiet_bind:
  "quiet r s \<Longrightarrow> (\<And>t. r = Inr t \<Longrightarrow> quiet (f t) t) \<Longrightarrow> quiet (ebind r f) s"
  by (cases r) (auto simp: quiet_def)

lemma quiet_trans: "quiet r t \<Longrightarrow> clk_depth t = clk_depth s \<Longrightarrow> quiet r s"
  by (simp add: quiet_def)

lemma quiet_prepare_read: "quiet (prepare_read hw s) s"
  by (auto simp: quiet_def prepare_read_def ebind_eq_Inr split: if_splits)

lemma quiet_read_state: "quiet (read_state hw s) s"
  unfolding read_state_def split_def Let_def
  by (auto simp: quiet_def ebind_eq_Inr dest!: quietD [OF quiet_prepare_read] split: if_splits)

lemma quiet_message_start:
  "(\<And>stat t. quiet (poll stat t) t) \<Longrightarrow> quiet (s3c24xx_i2c_message_start poll hw s m) s"
  unfolding s3c24xx_i2c_message_start_def split_def Let_def
  by (auto simp: quiet_def)

lemma quiet_retry_write:
  assumes poll: "\<And>stat t. quiet (poll stat t) t"
  shows "quiet (retry_write poll hw s) s"
proof (induction "msgs_left s" arbitrary: s rule: less_induct)
  case less
  let ?stop = "s3c24xx_i2c_stop hw (next_msg s) (- EINVAL)"
  have stop: "quiet (retry_write poll hw ?stop) ?stop" if "msg s \<noteq> None"
    by (rule less) (use that in \<open>auto simp: msgs_left_def\<close>)
  have cont: "quiet (retry_write poll hw (next_msg s)) (next_msg s)" if "msg s \<noteq> None" "\<not> is_lastmsg s"
    by (rule less) (use that next_msg_left in blast)
  show ?case
    unfolding retry_write.simps [of poll hw s]
    using stop cont quiet_message_start [OF poll, of _ hw]
    by (auto simp: quiet_def ebind_eq_Inr Let_def dest!: cur_msg_Inr_msg split: if_splits)
qed

lemma quiet_Inr: "clk_depth t = clk_depth s \<Longrightarrow> quiet (Inr t) s"
  by (simp add: quiet_def)

lemma quiet_get: "(\<And>a. m = Inr a \<Longrightarrow> quiet (f a) s) \<Longrightarrow> quiet (ebind m f) s"
  by (cases m) (auto simp: quiet_def)

lemma quiet_write_state:
  assumes poll: "\<And>stat t. quiet (poll stat t) t"
  shows "quiet (write_state poll hw s st) s"
  unfolding write_state_def
  by (rule quiet_get) (simp add: quiet_Inr quiet_retry_write [OF poll])

lemma quiet_start_state:
  assumes poll: "\<And>stat t. quiet (poll stat t) t"
  shows "quiet (start_state poll hw s st) s"
proof -
  have "quiet (prepare_read hw (s\<lparr>state := x\<rparr>)) s" "quiet (write_state poll hw (s\<lparr>state := x\<rparr>) st) s" for x
    by (rule quiet_trans [OF quiet_prepare_read] quiet_trans [OF quiet_write_state [OF poll]], simp)+
  then show ?thesis
    unfolding start_state_def Let_def by (intro quiet_get) (simp add: quiet_Inr)
qed

lemma quiet_nextbyte:
  assumes poll: "\<And>stat t. quiet (poll stat t) t"
  shows "quiet (i2c_s3c_irq_nextbyte poll hw s st) s"
proof -
  have ack: "quiet (ebind r (\<lambda>s. Inr (out_ack hw s))) s" if "quiet r s" for r
    by (rule quiet_bind [OF that]) (simp add: quiet_Inr)
  show ?thesis
    unfolding i2c_s3c_irq_nextbyte_def
    by (cases "state s") (simp_all add: quiet_Inr ack quiet_start_state [OF poll]
        quiet_write_state [OF poll] quiet_read_state)
qed

lemma clk_depth_is_ack_loop [simp]: "clk_depth (snd (is_ack_loop n hw s)) = clk_depth s"
  by (induction n arbitrary: s) (simp_all add: split_def Let_def)

lemma quiet_poll_loop: "quiet (poll_loop n hw stat s) s"
proof (induction n arbitrary: stat s)
  case (Suc n)
  let ?t = "snd (is_ack hw s)"
  have t: "clk_depth ?t = clk_depth s" by (simp add: is_ack_def)
  have "clk_depth s' = clk_depth s"
    if "i2c_s3c_irq_nextbyte (poll_loop n hw) hw ?t stat = Inr u"
      "poll_loop n hw st (snd (readl hw IICSTAT u)) = Inr s'" for u st s'
    using quietD [OF quiet_nextbyte [OF Suc] that(1)] quietD [OF Suc that(2)] t by simp
  then show ?case
    using t by (auto simp: quiet_def split_def Let_def ebind_eq_Inr split: if_splits)
qed (simp add: quiet_def)

lemma quiet_wait_done: "quiet (wait_done (poll_loop f hw) hw n s) s"
proof (induction n arbitrary: s)
  case (Suc n)
  have "quiet (s3c24xx_i2c_irq (poll_loop f hw) hw s) s"
    using quiet_nextbyte [where poll = "poll_loop f hw", OF quiet_poll_loop, of hw "snd (readl hw IICSTAT s)"]
    by (auto simp: irq_unfold quiet_def Let_def split: if_splits)
  then have "quiet (ebind (s3c24xx_i2c_irq (poll_loop f hw) hw s) (wait_done (poll_loop f hw) hw n)) s"
    using Suc by (rule quiet_bind)
  then show ?case by (simp add: wait_done.simps(2) quiet_def)
qed (simp add: quiet_def)

lemma clk_depth_loops [simp]:
  "clk_depth (snd (set_master_loop n hw s)) = clk_depth s"
  "clk_depth (snd (spin_loop m hw st s)) = clk_depth s"
  by (induction n arbitrary: s, simp_all add: split_def Let_def)
    (induction m arbitrary: s st, simp_all add: split_def Let_def)

lemma quiet_idle_loop: "quiet (idle_loop n hw t k now delay st s) s"
proof (induction n arbitrary: k now delay st s)
  case (Suc n)
  have "quiet (idle_loop n hw t k' now' d' st' (snd (readl hw IICSTAT (emit (Usleep a b) s)))) s"
    for k' now' d' st' a b
    by (rule quiet_trans [OF Suc]) simp
  then show ?case by (simp add: split_def Let_def quiet_def)
qed (simp add: quiet_def)

lemma quiet_wait_idle: "quiet (s3c24xx_i2c_wait_idle n hw t s) s"
  by (auto simp: s3c24xx_i2c_wait_idle_def split_def Let_def intro!: quiet_trans [OF quiet_idle_loop])

lemma doxfer_finish_clk: "doxfer_finish env hw s = Inr (ret, s') \<Longrightarrow> clk_depth s' = clk_depth s"
  unfolding doxfer_finish_def Let_def
  by (auto simp: ebind_eq_Inr dest!: quietD [OF quiet_wait_done] quietD [OF quiet_wait_idle]
      split: if_splits)

lemma doxfer_clk: "s3c24xx_i2c_doxfer env hw s ms num = Inr (ret, s') \<Longrightarrow> clk_depth s' = clk_depth s"
  unfolding s3c24xx_i2c_doxfer_def s3c24xx_i2c_set_master_def split_def Let_def
  by (auto simp: ebind_eq_Inr dest!: doxfer_finish_clk quietD [OF quiet_message_start [OF quiet_poll_loop]]
      split: if_splits)

text \<open>C8: However a transfer ends (delivered, refused, timed out, suspended, or given up after the
  retries), \<open>xfer\<close> has disabled the controller's clock exactly as often as it enabled it.\<close>
theorem xfer_clock_balanced:
  assumes "s3c24xx_i2c_xfer retries clk_ret envs hw s ms num = Inr (ret, s')"
  shows "clk_depth s' = clk_depth s"
proof -
  have "clk_depth s' = clk_depth t - 1"
    if "xfer_loop n envs k hw t ms num = Inr (ret, s')" for n k t
    using that
  proof (induction n arbitrary: k t)
    case (Suc n)
    then obtain r u where u: "s3c24xx_i2c_doxfer (envs k) hw t ms num = Inr (r, u)"
      by (auto simp: ebind_eq_Inr)
    have "clk_depth u = clk_depth t" by (rule doxfer_clk [OF u])
    then show ?case
      using Suc.prems u Suc.IH [of "Suc k" "emit (Udelay 100) u"] by (auto split: if_splits)
  qed auto
  then show ?thesis
    using assms by (fastforce simp: s3c24xx_i2c_xfer_def split: if_splits)
qed

theorem xfer_clock_balanced_witness:
  "\<exists>s'. s3c24xx_i2c_xfer 2 0 (\<lambda>_. env_ok) (\<lambda>_ _. 0x20) i2c0 random_read 2 = Inr (- EREMOTEIO, s') \<and>
     clk_depth s' = 0"
proof -
  obtain s' where s': "s3c24xx_i2c_xfer 2 0 (\<lambda>_. env_ok) (\<lambda>_ _. 0x20) i2c0 random_read 2 = Inr (- EREMOTEIO, s')"
    using xfer_loop_busy [of "\<lambda>_ _. 0x20" "emit ClkEnable i2c0" 2 "\<lambda>_. env_ok" 0 random_read 2] example_facts
    by (auto simp: s3c24xx_i2c_xfer_def i2c_consts)
  with xfer_clock_balanced [OF s'] show ?thesis by (simp add: i2c0_def clk_depth_def)
qed

end
