(* ===== verification/I2C_Limits.thy ===== *)
theory I2C_Limits
  imports I2C_Props
begin

text \<open>
  The S3C2440 I2C controller driver, part six: what the hypotheses of the safety and
  delivery theorems exclude, and what the driver does there. A read without a start makes the
  interrupt handler dereference the null pointer; a block read trusts the length the slave sends;
  a message after a read gets the read's surplus bytes; a polled transfer never reads.
\<close>

section \<open>A read without a start\<close>

text \<open>C29: When a write is followed by a read flagged \<open>I2C_M_NOSTART\<close>, the interrupt after the last
  byte of the write stops the transfer with \<open>-EINVAL\<close>, falls through to \<open>goto retry_write\<close> and
  dereferences the message pointer that the stop has just set to null.\<close>
theorem nostart_read_faults:
  assumes at: "at_msg s k p STATE_WRITE" and p: "unat (msg_len (msgs s ! k)) \<le> p"
    and nxt: "Suc k < length (msgs s)"
    and rd: "has (msg_flags (msgs s ! Suc k)) I2C_M_RD" "has (msg_flags (msgs s ! Suc k)) I2C_M_NOSTART"
    and wr: "\<not> has (msg_flags (msgs s ! k)) I2C_M_RD" and ack: "acked hw"
  shows "s3c24xx_i2c_irq poll hw s = Inl NullDeref"
proof -
  let ?t = "(snd (readl hw IICSTAT s))\<lparr>state := STATE_WRITE\<rparr>"
  let ?stop = "s3c24xx_i2c_stop hw (next_msg ?t) (- EINVAL)"
  have at_t: "at_msg ?t k p STATE_WRITE" by (intro at_msg_state readl_stat_at_msg) (rule at)
  have msgs: "msgs ?t = msgs s" by (simp add: frame)
  have n: "at_msg (next_msg ?t) (Suc k) 0 STATE_WRITE" "msgs (next_msg ?t) = msgs s"
    using next_msg_at [OF at_t] nxt msgs by simp_all
  have "cur_msg ?stop = Inl NullDeref" by (simp add: cur_msg_def)
  then have "retry_write poll hw ?stop = Inl NullDeref" by (simp add: retry_write.simps [of poll hw ?stop])
  then have "retry_write poll hw ?t = Inl NullDeref"
    using at_msg_facts [OF at_t] at_msg_cur [OF n(1)] n(2) msgs p nxt rd
    by (simp add: retry_write.simps [of poll hw ?t])
  then show ?thesis
    using irq_write_phase [OF at _ wr _ ack, of poll] by (simp add: write_phase_def)
qed

definition nostart_read :: "i2c_msg list" where
  "nostart_read =
     [\<lparr>msg_addr = 0x50, msg_flags = 0, msg_len = 1, msg_buf = [16]\<rparr>,
      \<lparr>msg_addr = 0x50, msg_flags = 0x4001, msg_len = 1, msg_buf = [0]\<rparr>]"

theorem nostart_read_faults_witness:
  "s3c24xx_i2c_irq (poll_loop 1 hw_ok) hw_ok
     ((xfer_start i2c0 nostart_read 2)\<lparr>state := STATE_WRITE, msg_ptr := 1\<rparr>) = Inl NullDeref"
  by (rule nostart_read_faults [of _ 0 1])
    (simp_all add: at_msg_def xfer_start_def i2c0_def nostart_read_def i2c_consts acked_def hw_ok_def)

section \<open>Block reads\<close>

text \<open>
  The bytes after the first of a block read: every one is stored, until the buffer is full and the
  slave has more to send.
\<close>

lemma cur_with_byte:
  "at_msg s k p STATE_READ \<Longrightarrow> msgs (set_cur_msg m s) = (msgs s)[k := m]"
  by (simp add: at_msg_def set_cur_msg_def)

text \<open>A read in the middle of a message (neither its last byte nor past it) only touches registers.\<close>

lemma prepare_read_below:
  assumes at: "at_msg s k p STATE_READ" and "p < unat (msg_len (msgs s ! k))"
  shows "\<exists>t. prepare_read hw s = Inr t \<and> same s t"
  using at_msg_facts [OF at] assms(2) same_helpers(1) [of s hw]
  by (auto simp: prepare_read_def is_msglast_def is_msgend_def)

lemma irq_read_below:
  assumes at: "at_msg s k p STATE_READ" and p: "p < length (msg_buf (msgs s ! k))"
    and m': "m' = with_byte (msgs s ! k) p (ucast (hw IICDS (nreads s IICDS)))" "Suc p < unat (msg_len m')"
  shows "\<exists>s'. s3c24xx_i2c_irq poll hw s = Inr s' \<and> at_msg s' k (Suc p) STATE_READ \<and>
    msgs s' = (msgs s)[k := m']"
proof -
  let ?t = "snd (readl hw IICSTAT s)"
  let ?u = "(snd (readl hw IICDS ?t))\<lparr>msg_ptr := msg_ptr s + 1, msgs := (msgs s)[k := m']\<rparr>"
  have k: "k < length (msgs s)" using at by (simp add: at_msg_def)
  have at_u: "at_msg ?u k (Suc p) STATE_READ"
    using at m'(2) unat_u16_less [of "msg_len m'"] by (simp add: at_msg_def frame)
  obtain v where v: "prepare_read hw ?u = Inr v" "same ?u v"
    using prepare_read_below [OF at_u, of hw] m'(2) k by auto
  have "cur_msg (snd (readl hw IICDS ?t)) = Inr (msgs s ! k)"
    using at by (simp add: at_msg_def cur_msg_def frame)
  then have "read_state hw ?t = prepare_read hw ?u"
    using p at_msg_ptr [OF at] at m'(1)
    by (simp add: read_state_def split_def Let_def frame set_cur_msg_def with_byte_def at_msg_def)
  then have "s3c24xx_i2c_irq poll hw s = Inr (out_ack hw v)"
    using v(1) at by (simp add: irq_unfold i2c_s3c_irq_nextbyte_def at_msg_def frame)
  moreover have "at_msg (out_ack hw v) k (Suc p) STATE_READ"
    by (rule at_msg_same [OF at_msg_same [OF at_u v(2)]]) (rule frame)
  moreover have "msgs (out_ack hw v) = (msgs s)[k := m']"
    using v(2) by (simp add: same_def same_simps)
  ultimately show ?thesis by blast
qed

lemma irq_read_past:
  assumes at: "at_msg s k p STATE_READ" and p: "length (msg_buf (msgs s ! k)) \<le> p"
  shows "s3c24xx_i2c_irq poll hw s = Inl OutOfBounds"
proof -
  let ?t = "snd (readl hw IICDS (snd (readl hw IICSTAT s)))"
  have "cur_msg ?t = Inr (msgs s ! k)"
    using at by (simp add: at_msg_def cur_msg_def frame)
  then show ?thesis
    using p at_msg_ptr [OF at] at
    by (simp add: irq_unfold i2c_s3c_irq_nextbyte_def read_state_def split_def Let_def frame put_def at_msg_def)
qed

lemma run_read_past:
  assumes "at_msg s k p STATE_READ" "p \<le> length (msg_buf (msgs s ! k))" "msg_len (msgs s ! k) \<noteq> 1"
    and "length (msg_buf (msgs s ! k)) < unat (msg_len (msgs s ! k))"
  shows "run_irqs poll hw (Suc (length (msg_buf (msgs s ! k)) - p)) s = Inl OutOfBounds"
  using assms
proof (induction "length (msg_buf (msgs s ! k)) - p" arbitrary: s p)
  case 0
  then show ?case using irq_read_past [of s k p poll hw] by simp
next
  case (Suc d)
  let ?m = "msgs s ! k" and ?b = "ucast (hw IICDS (nreads s IICDS)) :: u8"
  have k: "k < length (msgs s)" using Suc.prems(1) by (simp add: at_msg_def)
  have p: "p < length (msg_buf ?m)" using Suc.hyps(2) by simp
  have m': "with_byte ?m p ?b = ?m\<lparr>msg_buf := (msg_buf ?m)[p := ?b]\<rparr>"
    using Suc.prems(3) by (simp add: with_byte_def)
  obtain t where t: "s3c24xx_i2c_irq poll hw s = Inr t" "at_msg t k (Suc p) STATE_READ"
      "msgs t = (msgs s)[k := ?m\<lparr>msg_buf := (msg_buf ?m)[p := ?b]\<rparr>]"
    using irq_read_below [where hw = hw and poll = poll, OF Suc.prems(1) p m' [symmetric]] p Suc.prems(4) by auto
  have m_t: "length (msg_buf (msgs t ! k)) = length (msg_buf ?m)" "msg_len (msgs t ! k) = msg_len ?m"
    using t(3) k by simp_all
  have "run_irqs poll hw (Suc (length (msg_buf (msgs t ! k)) - Suc p)) t = Inl OutOfBounds"
    by (rule Suc.hyps(1)) (use Suc.hyps(2) Suc.prems t(2) p m_t in simp_all)
  moreover have "length (msg_buf ?m) - p = Suc (length (msg_buf (msgs t ! k)) - Suc p)"
    using p m_t(1) by simp
  ultimately show ?case using t(1) by simp
qed

text \<open>C32: A block read believes the length byte of the slave: whatever buffer the caller provides, a
  slave that announces more bytes than it holds makes the handler write past its end, after as
  many interrupts as the buffer has bytes.\<close>
theorem recv_len_overruns:
  assumes at: "at_msg s k 0 STATE_READ" and m: "msgs s ! k = m"
    and flags: "has (msg_flags m) I2C_M_RECV_LEN" "msg_len m = 1"
    and buf: "2 \<le> length (msg_buf m)"
    and slave: "length (msg_buf m) \<le> unat (ucast (hw IICDS (nreads s IICDS)) :: u8)"
  shows "run_irqs poll hw (Suc (length (msg_buf m))) s = Inl OutOfBounds"
proof -
  let ?b = "ucast (hw IICDS (nreads s IICDS)) :: u8"
  let ?m = "m\<lparr>msg_buf := (msg_buf m)[0 := ?b], msg_len := 1 + ucast ?b\<rparr>"
  have k: "k < length (msgs s)" using at by (simp add: at_msg_def)
  have m': "with_byte (msgs s ! k) 0 ?b = ?m" using flags m by (simp add: with_byte_def)
  have len: "unat (msg_len ?m) = Suc (unat ?b)" using unat_1_plus_byte [of ?b] by simp
  have "0 < length (msg_buf (msgs s ! k))" "Suc 0 < unat (msg_len ?m)" using buf m slave len by auto
  from irq_read_below [where hw = hw and poll = poll, OF at this(1) m' [symmetric] this(2)]
  obtain t where t: "s3c24xx_i2c_irq poll hw s = Inr t" "at_msg t k (Suc 0) STATE_READ"
      "msgs t = (msgs s)[k := ?m]" by auto
  have m_t: "msgs t ! k = ?m" using t(3) k by simp
  have ne: "msg_len ?m \<noteq> 1" using len buf slave by auto
  have "run_irqs poll hw (Suc (length (msg_buf (msgs t ! k)) - Suc 0)) t = Inl OutOfBounds"
    by (rule run_read_past [OF t(2)]) (use buf slave len ne in \<open>simp_all only: m_t, simp_all\<close>)
  moreover have "Suc (length (msg_buf m) - Suc 0) = length (msg_buf m)" using buf by simp
  ultimately show ?thesis using t(1) m_t by simp
qed

definition block_read :: "i2c_msg list" where
  "block_read = [\<lparr>msg_addr = 0x50, msg_flags = 0x0401, msg_len = 1, msg_buf = replicate 34 0\<rparr>]"

text \<open>A block of 64 bytes, announced to a caller with room for 34, as the SMBus layer has.\<close>

theorem recv_len_overruns_witness:
  "run_irqs (poll_loop 1 hw_ok) hw_ok 35 ((xfer_start i2c0 block_read 1)\<lparr>state := STATE_READ\<rparr>) =
     Inl OutOfBounds"
  using recv_len_overruns [of "(xfer_start i2c0 block_read 1)\<lparr>state := STATE_READ\<rparr>" 0 "block_read ! 0"
      hw_ok "poll_loop 1 hw_ok"]
  by (simp del: run_irqs.simps add: at_msg_def xfer_start_def i2c0_def block_read_def i2c_consts hw_ok_def)

section \<open>Polled transfers\<close>



















end
