(* ===== verification/Kernel.thy ===== *)
theory Kernel
  imports Prelude "HOL-Library.Multiset"
begin

text \<open>
  What the drivers share of the kernel: resources that are acquired and released (a ledger of
  calls, and the contract between the start and the stop of a driver), the copies between kernel
  and user memory, and the events of the input subsystem (with the contract that every
  report ends in a synchronisation).
\<close>

section \<open>Ledgers\<close>

text \<open>
  A driver's calls that acquire or release something, in the order it makes them. Releasing what
  is not held (a double free, the release of something that was never acquired) has no result.
\<close>

datatype 'r event = Acq 'r | Rel 'r

fun ledger_from :: "'r multiset \<Rightarrow> 'r event list \<Rightarrow> 'r multiset option" where
  "ledger_from held [] = Some held"
| "ledger_from held (Acq r # es) = ledger_from (add_mset r held) es"
| "ledger_from held (Rel r # es) = (if r \<in># held then ledger_from (held - {#r#}) es else None)"

definition ledger :: "'r event list \<Rightarrow> 'r multiset option" where
  "ledger es = ledger_from {#} es"

lemma ledger_from_append:
  "ledger_from held (xs @ ys) = Option.bind (ledger_from held xs) (\<lambda>h. ledger_from h ys)"
  by (induction held xs rule: ledger_from.induct) auto

lemma ledger_append: "ledger xs = Some h \<Longrightarrow> ledger (xs @ ys) = ledger_from h ys"
  by (simp add: ledger_def ledger_from_append)

lemma ledger_from_acquire: "ledger_from held (map Acq rs) = Some (mset rs + held)"
  by (induction rs arbitrary: held) auto

lemma ledger_from_release: "ledger_from (mset rs + held) (map Rel rs) = Some held"
  by (induction rs arbitrary: held) auto

text \<open>One life of a driver: its start and, if that succeeded, its stop.\<close>

definition cycle :: "('e \<Rightarrow> int \<times> 'r event list) \<Rightarrow> ('e \<Rightarrow> 'r event list) \<Rightarrow> 'e \<Rightarrow> 'r event list" where
  "cycle start stop e = (if fst (start e) = 0 then snd (start e) @ stop e else snd (start e))"

text \<open>
  The contract of a driver's start (a module's initialisation, a probe function, a main program)
  and stop: a start that fails holds nothing; a start that succeeds followed by the stop holds
  nothing. The start returns 0 on success; \<open>valid\<close> are the environments it is made for.
\<close>

locale lifecycle =
  fixes start :: "'e \<Rightarrow> int \<times> 'r event list" and stop :: "'e \<Rightarrow> 'r event list"
    and valid :: "'e \<Rightarrow> bool"
  assumes failed_start: "valid e \<Longrightarrow> fst (start e) \<noteq> 0 \<Longrightarrow> ledger (snd (start e)) = Some {#}"
    and stop_after_start: "valid e \<Longrightarrow> fst (start e) = 0 \<Longrightarrow> ledger (snd (start e) @ stop e) = Some {#}"
begin

lemma cycle_balanced: "valid e \<Longrightarrow> ledger (cycle start stop e) = Some {#}"
  by (simp add: cycle_def failed_start stop_after_start)

text \<open>However often a driver is loaded and unloaded, nothing is lost and nothing freed twice.\<close>

lemma cycles_balanced: "list_all valid es \<Longrightarrow> ledger (concat (map (cycle start stop) es)) = Some {#}"
proof (induction es)
  case (Cons e es)
  then show ?case by (simp add: ledger_append [OF cycle_balanced]) (simp add: ledger_def)
qed (simp add: ledger_def)

end

section \<open>User memory\<close>

text \<open>
  \<open>copy_to_user\<close> returns the number of bytes it could not copy: \<open>uncopied off n\<close> for \<open>n\<close> bytes
  to offset \<open>off\<close> of the user's buffer. What it does copy is read from the kernel buffer, so
  that asking for more than the buffer holds faults unless the copy stops before.
\<close>

definition copy_to_user ::
  "(nat \<Rightarrow> nat \<Rightarrow> nat) \<Rightarrow> u8 list \<Rightarrow> nat \<Rightarrow> u8 list \<Rightarrow> nat \<Rightarrow> fault + (nat \<times> u8 list)" where
  "copy_to_user uncopied ubuf off kbuf n =
     ebind (load kbuf 0 (n - uncopied off n)) (\<lambda>bytes.
       ebind (store ubuf off bytes) (\<lambda>ubuf. Inr (uncopied off n, ubuf)))"

lemma copy_to_user_all:
  "uncopied off n = 0 \<Longrightarrow> n \<le> length kbuf \<Longrightarrow> off + n \<le> length ubuf \<Longrightarrow>
    copy_to_user uncopied ubuf off kbuf n = Inr (0, overwrite ubuf off (take n kbuf))"
  by (simp add: copy_to_user_def load_def store_def)

section \<open>Stores\<close>

text \<open>
  The contract of a device that keeps blocks: a range that was written reads back, and
  writing a range leaves the others alone. \<open>good\<close> is the invariant of the device, \<open>fits b\<close> says that
  \<open>b\<close> has the size of a block.
\<close>

locale block_store =
  fixes put_range :: "'s \<Rightarrow> nat \<Rightarrow> 'b list \<Rightarrow> 's" and get_range :: "'s \<Rightarrow> nat \<Rightarrow> nat \<Rightarrow> 'b list"
    and capacity :: nat and good :: "'s \<Rightarrow> bool" and fits :: "'b \<Rightarrow> bool"
  assumes keeps_good: "good s \<Longrightarrow> a + length bs \<le> capacity \<Longrightarrow> list_all fits bs \<Longrightarrow> good (put_range s a bs)"
    and get_put_same: "good s \<Longrightarrow> a + length bs \<le> capacity \<Longrightarrow> list_all fits bs \<Longrightarrow>
      get_range (put_range s a bs) a (length bs) = bs"
    and get_put_other: "good s \<Longrightarrow> a + length bs \<le> capacity \<Longrightarrow> list_all fits bs \<Longrightarrow>
      b + n \<le> capacity \<Longrightarrow> b + n \<le> a \<or> a + length bs \<le> b \<Longrightarrow>
      get_range (put_range s a bs) b n = get_range s b n"
begin

primrec puts :: "'s \<Rightarrow> (nat \<times> 'b list) list \<Rightarrow> 's" where
  "puts s [] = s"
| "puts s (w # ws) = puts (put_range s (fst w) (snd w)) ws"

definition legal :: "nat \<times> 'b list \<Rightarrow> bool" where
  "legal w \<longleftrightarrow> fst w + length (snd w) \<le> capacity \<and> list_all fits (snd w)"

definition apart :: "nat \<Rightarrow> nat \<Rightarrow> nat \<times> 'b list \<Rightarrow> bool" where
  "apart a n w \<longleftrightarrow> a + n \<le> fst w \<or> fst w + length (snd w) \<le> a"

lemma puts_other:
  "good s \<Longrightarrow> list_all legal ws \<Longrightarrow> list_all (apart a n) ws \<Longrightarrow> a + n \<le> capacity \<Longrightarrow>
    get_range (puts s ws) a n = get_range s a n"
  by (induction ws arbitrary: s) (auto simp: legal_def apart_def keeps_good get_put_other)

text \<open>The last write of a range decides what is read from it, whatever was written elsewhere since.\<close>

lemma last_write_wins:
  assumes "good s" "legal (a, bs)" "list_all legal ws" "list_all (apart a (length bs)) ws"
  shows "get_range (puts (put_range s a bs) ws) a (length bs) = bs"
  using assms puts_other [of "put_range s a bs" ws a "length bs"] keeps_good get_put_same
  by (simp add: legal_def)

end

section \<open>Input events\<close>

datatype input_event = AbsEvent nat nat | KeyEvent nat nat | Sync

text \<open>
  A frame is a run of events closed by its only synchronisation: what the input core passes
  to its readers at once.
\<close>

definition frame_ok :: "input_event list \<Rightarrow> bool" where
  "frame_ok es \<longleftrightarrow> es = [] \<or> (es \<noteq> [] \<and> last es = Sync \<and> Sync \<notin> set (butlast es))"

text \<open>What a reader has not yet been given: the events after the last synchronisation.\<close>

definition pending :: "input_event list \<Rightarrow> input_event list" where
  "pending es = rev (takeWhile (\<lambda>e. e \<noteq> Sync) (rev es))"

lemma pending_frame: "frame_ok fs \<Longrightarrow> pending (es @ fs) = (if fs = [] then pending es else [])"
  by (cases fs rule: rev_cases) (auto simp: frame_ok_def pending_def)

locale reporter =
  fixes handle :: "'i \<Rightarrow> 's \<Rightarrow> 's" and reports :: "'i \<Rightarrow> 's \<Rightarrow> input_event list"
  assumes frame: "frame_ok (reports i s)"
begin

primrec stream :: "'i list \<Rightarrow> 's \<Rightarrow> input_event list" where
  "stream [] s = []"
| "stream (i # is) s = reports i s @ stream is (handle i s)"

lemma stream_synced: "pending (stream is s) = []"
proof -
  have "pending (es @ stream is s) = []" if "pending es = []" for es
    using that
  proof (induction "is" arbitrary: es s)
    case (Cons i "is")
    from Cons.IH [of "es @ reports i s"] Cons.prems show ?case
      by (simp add: pending_frame [OF frame])
  qed simp
  from this [of "[]"] show ?thesis by (simp add: pending_def)
qed

end

end
