(* ===== verification/I2C_Probe.thy ===== *)
theory I2C_Probe
  imports I2C_Xfer Kernel
begin

text \<open>
  The S3C2440 I2C controller driver, part seven: the device tables, the initialisation of the
  controller and the probe function. The functions the source calls but does not define
  (\<open>s3c24xx_i2c_clockrate\<close>, \<open>s3c24xx_i2c_parse_dt_gpio\<close>, the cpufreq hooks) and those of the kernel
  are given by their results. Managed resources are released by the driver core and are not
  in the ledger.
\<close>

section \<open>Tables\<close>

definition s3c24xx_driver_ids :: "(string \<times> u32) list" where
  "s3c24xx_driver_ids =
     [(''s3c2410-i2c'', 0),
      (''s3c2440-i2c'', QUIRK_S3C2440),
      (''s3c2440-hdmiphy-i2c'', QUIRK_S3C2440 OR QUIRK_HDMIPHY OR QUIRK_NO_GPIO)]"

definition s3c24xx_i2c_match :: "(string \<times> u32) list" where
  "s3c24xx_i2c_match =
     [(''samsung,s3c2410-i2c'', 0),
      (''samsung,s3c2440-i2c'', QUIRK_S3C2440),
      (''samsung,s3c2440-hdmiphy-i2c'', QUIRK_S3C2440 OR QUIRK_HDMIPHY OR QUIRK_NO_GPIO),
      (''samsung,exynos5440-i2c'', QUIRK_S3C2440 OR QUIRK_NO_GPIO),
      (''samsung,exynos5-sata-phy-i2c'', QUIRK_S3C2440 OR QUIRK_POLL OR QUIRK_NO_GPIO)]"

text \<open>A device: its node in the device tree (by its compatible string), or the entry of the id table.\<close>

datatype pdev = OfNode string | PlatformId string

text \<open>A node without a match, or a name without an entry, is a null pointer that is dereferenced.\<close>

definition s3c24xx_get_device_quirks :: "pdev \<Rightarrow> fault + u32" where
  "s3c24xx_get_device_quirks dev =
     (case dev of
        OfNode compatible \<Rightarrow> (case map_of s3c24xx_i2c_match compatible of
          None \<Rightarrow> Inl NullDeref | Some data \<Rightarrow> Inr data)
      | PlatformId name \<Rightarrow> (case map_of s3c24xx_driver_ids name of
          None \<Rightarrow> Inl NullDeref | Some data \<Rightarrow> Inr data))"

section \<open>Functionality\<close>

text \<open>The bits of \<open>linux/i2c.h\<close>; \<open>I2C_FUNC_SMBUS_EMUL\<close> as it is composed there.\<close>

definition I2C_FUNC_I2C :: u32 where "I2C_FUNC_I2C = 0x1"
definition I2C_FUNC_PROTOCOL_MANGLING :: u32 where "I2C_FUNC_PROTOCOL_MANGLING = 0x4"
definition I2C_FUNC_NOSTART :: u32 where "I2C_FUNC_NOSTART = 0x10"
definition I2C_FUNC_SMBUS_READ_BLOCK_DATA :: u32 where "I2C_FUNC_SMBUS_READ_BLOCK_DATA = 0x1000000"
definition I2C_FUNC_SMBUS_EMUL :: u32 where "I2C_FUNC_SMBUS_EMUL = 0x0eff0008"

definition s3c24xx_i2c_func :: u32 where
  "s3c24xx_i2c_func =
     I2C_FUNC_I2C OR I2C_FUNC_SMBUS_EMUL OR I2C_FUNC_NOSTART OR I2C_FUNC_PROTOCOL_MANGLING"

section \<open>Platform data and initialisation\<close>

record i2c_pdata =
  bus_num :: int
  slave_addr :: u32
  sda_delay :: u32
  frequency :: u32
  has_cfg_gpio :: bool

text \<open>A property of the device tree that is missing leaves its field as it is.\<close>

definition s3c24xx_i2c_parse_dt :: "u32 option \<Rightarrow> u32 option \<Rightarrow> u32 option \<Rightarrow> i2c_pdata \<Rightarrow> i2c_pdata" where
  "s3c24xx_i2c_parse_dt delay addr freq pd =
     (let pd = pd\<lparr>bus_num := - 1\<rparr>;
          pd = (case delay of None \<Rightarrow> pd | Some v \<Rightarrow> pd\<lparr>sda_delay := v\<rparr>);
          pd = (case addr of None \<Rightarrow> pd | Some v \<Rightarrow> pd\<lparr>slave_addr := v\<rparr>)
      in case freq of None \<Rightarrow> pd | Some v \<Rightarrow> pd\<lparr>frequency := v\<rparr>)"

definition s3c24xx_i2c_init :: "hw \<Rightarrow> i2c_pdata \<Rightarrow> int \<Rightarrow> s3c24xx_i2c \<Rightarrow> int \<times> s3c24xx_i2c" where
  "s3c24xx_i2c_init hw pd clockrate_ret s =
     (let s = writeb (ucast (slave_addr pd)) IICADD s;
          s = writel 0 IICCON s;
          s = writel 0 IICSTAT s
      in if clockrate_ret \<noteq> 0 then (- EINVAL, s)
         else (0, snd (readl hw IICCON s)))"

section \<open>Probe\<close>

datatype i2c_res = Prepared | Enabled | Cpufreq | Adapter | PmRuntime

record i2c_env =
  device :: pdev
  platdata :: "i2c_pdata option"
  dt_delay :: "u32 option"
  dt_addr :: "u32 option"
  dt_freq :: "u32 option"
  i2c_alloc :: bool
  pdata_alloc :: bool
  clk_found :: bool
  regs_err :: "int option"
  pinctrl_err :: bool
  parse_gpio_ret :: int
  clk_enable_ret :: int
  clockrate_ret :: int
  irq_ret :: int
  request_ret :: int
  cpufreq_ret :: int
  adapter_ret :: int

definition zero_pdata :: i2c_pdata where
  "zero_pdata = \<lparr>bus_num = 0, slave_addr = 0, sda_delay = 0, frequency = 0, has_cfg_gpio = False\<rparr>"

text \<open>The controller as \<open>devm_kzalloc\<close> and the assignments of the probe function leave it.\<close>

definition new_i2c :: "u32 \<Rightarrow> s3c24xx_i2c" where
  "new_i2c q = \<lparr>quirks = q, suspended = False, msgs = [], msg = None, msg_num = 0, msg_idx = 0, msg_ptr = 0,
     tx_setup = 50, state = STATE_IDLE, nreads = (\<lambda>_. 0), trace = []\<rparr>"

text \<open>From the interrupt on: the return value and the calls.\<close>

definition probe_register :: "i2c_env \<Rightarrow> int \<times> i2c_res event list" where
  "probe_register env =
     (if cpufreq_ret env < 0 then (cpufreq_ret env, [Rel Prepared])
      else if adapter_ret env < 0
      then (adapter_ret env, [Acq Cpufreq, Rel PmRuntime, Rel Cpufreq, Rel Prepared])
      else (0, [Acq Cpufreq, Acq Adapter]))"

definition probe_irq :: "u32 \<Rightarrow> i2c_env \<Rightarrow> int \<times> i2c_res event list" where
  "probe_irq q env =
     (if \<not> has q QUIRK_POLL then
        if irq_ret env \<le> 0 then (irq_ret env, [Rel Prepared])
        else if request_ret env \<noteq> 0 then (request_ret env, [Rel Prepared])
        else probe_register env
      else probe_register env)"

text \<open>
  From the clock on. The result: the return value, the calls, and the controller with its platform
  data. The result of \<open>clk_prepare_enable\<close> is not looked at: if it fails, nothing is prepared or enabled, and the
  probe function goes on. The clock is disabled, not unprepared, when the initialisation fails.
\<close>

definition probe_powered ::
  "hw \<Rightarrow> i2c_env \<Rightarrow> u32 \<Rightarrow> i2c_pdata \<Rightarrow> s3c24xx_i2c \<Rightarrow>
    int \<times> i2c_res event list \<times> (s3c24xx_i2c \<times> i2c_pdata) option" where
  "probe_powered hw env q pd s =
     (let es = (if clk_enable_ret env = 0 then [Acq Prepared, Acq Enabled] else []);
          (ret, s) = s3c24xx_i2c_init hw pd (clockrate_ret env) s;
          es = es @ [Rel Enabled]
      in if ret \<noteq> 0 then (ret, es, None)
         else let (ret, es') = probe_irq q env
           in (ret, es @ es', if ret = 0 then Some (s, pd) else None))"

definition s3c24xx_i2c_probe ::
  "hw \<Rightarrow> i2c_env \<Rightarrow> fault + (int \<times> i2c_res event list \<times> (s3c24xx_i2c \<times> i2c_pdata) option)" where
  "s3c24xx_i2c_probe hw env =
     (let no_node = (case device env of OfNode _ \<Rightarrow> False | PlatformId _ \<Rightarrow> True) in
      if no_node \<and> platdata env = None then Inr (- EINVAL, [], None)
      else if \<not> i2c_alloc env then Inr (- ENOMEM, [], None)
      else if \<not> pdata_alloc env then Inr (- ENOMEM, [], None)
      else ebind (s3c24xx_get_device_quirks (device env)) (\<lambda>q.
        let pd = (if no_node then (case platdata env of Some p \<Rightarrow> p | None \<Rightarrow> zero_pdata)
                  else s3c24xx_i2c_parse_dt (dt_delay env) (dt_addr env) (dt_freq env) zero_pdata)
        in if \<not> clk_found env then Inr (- ENOENT, [], None)
           else case regs_err env of Some err \<Rightarrow> Inr (err, [], None)
           | None \<Rightarrow>
             if \<not> has_cfg_gpio pd \<and> pinctrl_err env \<and> parse_gpio_ret env \<noteq> 0 then Inr (- EINVAL, [], None)
             else Inr (probe_powered hw env q pd (new_i2c q))))"

section \<open>Module hooks\<close>

text \<open>The platform core registers the driver or returns an error.\<close>

datatype i2c_mod = PlatformDriver

definition i2c_adap_s3c_init :: "int \<Rightarrow> int \<times> i2c_mod event list" where
  "i2c_adap_s3c_init register_ret =
     (register_ret, if register_ret = 0 then [Acq PlatformDriver] else [])"

definition i2c_adap_s3c_exit :: "i2c_mod event list" where
  "i2c_adap_s3c_exit = [Rel PlatformDriver]"

interpretation i2c_module: lifecycle i2c_adap_s3c_init "\<lambda>_. i2c_adap_s3c_exit" "\<lambda>_. True"
  by unfold_locales (auto simp: i2c_adap_s3c_init_def i2c_adap_s3c_exit_def ledger_def)

section \<open>What probing guarantees\<close>

text \<open>The two tables agree: a device named in the id table has the quirks of the node of the same
  name in the device tree, and the controllers that are polled are the SATA PHY's alone.\<close>
theorem quirk_tables_agree:
  "list_all (\<lambda>(name, q). map_of s3c24xx_i2c_match (''samsung,'' @ name) = Some q) s3c24xx_driver_ids \<and>
   filter (\<lambda>(_, q). has q QUIRK_POLL) s3c24xx_i2c_match =
     [(''samsung,exynos5-sata-phy-i2c'', QUIRK_S3C2440 OR QUIRK_POLL OR QUIRK_NO_GPIO)] \<and>
   filter (\<lambda>(_, q). has q QUIRK_POLL) s3c24xx_driver_ids = []"
  by (simp add: s3c24xx_driver_ids_def s3c24xx_i2c_match_def i2c_consts)

text \<open>The adapter offers plain I2C, emulated SMBus, messages without a start and mangled protocols; SMBus
  block reads, whose length comes from the slave, are not among them.\<close>
theorem func_bits:
  "has s3c24xx_i2c_func I2C_FUNC_I2C \<and> has s3c24xx_i2c_func I2C_FUNC_NOSTART \<and>
   has s3c24xx_i2c_func I2C_FUNC_PROTOCOL_MANGLING \<and> \<not> has s3c24xx_i2c_func I2C_FUNC_SMBUS_READ_BLOCK_DATA"
  by (simp add: s3c24xx_i2c_func_def I2C_FUNC_I2C_def I2C_FUNC_NOSTART_def I2C_FUNC_PROTOCOL_MANGLING_def
      I2C_FUNC_SMBUS_READ_BLOCK_DATA_def I2C_FUNC_SMBUS_EMUL_def)

lemma probe_irq_ok:
  "probe_irq q env = (0, es) \<Longrightarrow>
    es = (if \<not> has q QUIRK_POLL \<and> irq_ret env = 0 then [Rel Prepared] else [Acq Cpufreq, Acq Adapter])"
  by (auto simp: probe_irq_def probe_register_def split: if_splits)

lemma probe_irq_failed:
  "probe_irq q env = (ret, es) \<Longrightarrow> ret \<noteq> 0 \<Longrightarrow>
    es = [Rel Prepared] \<or>
    adapter_ret env < 0 \<and> ret = adapter_ret env \<and> es = [Acq Cpufreq, Rel PmRuntime, Rel Cpufreq, Rel Prepared]"
  by (auto simp: probe_irq_def probe_register_def split: if_splits)

text \<open>The endings of the probe function, before and after the clock is on.\<close>

lemma init_result:
  "s3c24xx_i2c_init hw pd r s = (if r \<noteq> 0 then - EINVAL else 0, snd (s3c24xx_i2c_init hw pd r s))"
  by (simp add: s3c24xx_i2c_init_def Let_def)

definition clk_calls :: "i2c_env \<Rightarrow> i2c_res event list" where
  "clk_calls env = (if clk_enable_ret env = 0 then [Acq Prepared, Acq Enabled] else []) @ [Rel Enabled]"

lemma clk_ledger:
  "clk_enable_ret env = 0 \<Longrightarrow> ledger (clk_calls env @ es) = ledger (Acq Prepared # es)"
  "clk_enable_ret env \<noteq> 0 \<Longrightarrow> ledger (clk_calls env @ es) = None"
  "clk_enable_ret env \<noteq> 0 \<Longrightarrow> hd (clk_calls env @ es) = Rel Enabled"
  by (simp_all add: clk_calls_def ledger_def)

lemma probe_powered_cases:
  assumes "probe_powered hw env q pd s = (ret, es, r)"
  shows "clockrate_ret env \<noteq> 0 \<and> ret = - EINVAL \<and> es = clk_calls env \<and> r = None \<or>
    (\<exists>es'. probe_irq q env = (ret, es') \<and> es = clk_calls env @ es' \<and>
      r = (if ret = 0 then Some (snd (s3c24xx_i2c_init hw pd 0 s), pd) else None))"
proof (cases "clockrate_ret env = 0")
  case True
  obtain ret' es' where "probe_irq q env = (ret', es')" by fastforce
  then show ?thesis
    using assms True unfolding probe_powered_def clk_calls_def by (subst (asm) init_result) (auto simp: Let_def)
next
  case False
  then show ?thesis
    using assms unfolding probe_powered_def clk_calls_def by (subst (asm) init_result) auto
qed

lemma probe_cases:
  assumes "s3c24xx_i2c_probe hw env = Inr (ret, es, r)"
  shows "es = [] \<and> r = None \<and> (ret \<noteq> 0 \<or> regs_err env = Some 0) \<or>
    (\<exists>q pd. s3c24xx_get_device_quirks (device env) = Inr q \<and>
      probe_powered hw env q pd (new_i2c q) = (ret, es, r))"
proof -
  let ?pd = "if (case device env of OfNode _ \<Rightarrow> False | PlatformId _ \<Rightarrow> True)
     then (case platdata env of Some p \<Rightarrow> p | None \<Rightarrow> zero_pdata)
     else s3c24xx_i2c_parse_dt (dt_delay env) (dt_addr env) (dt_freq env) zero_pdata"
  define pd where "pd = ?pd"
  show ?thesis
    using assms unfolding s3c24xx_i2c_probe_def Let_def pd_def [symmetric]
    by (cases "clk_found env"; cases "regs_err env")
      (force simp: ebind_eq_Inr split: if_split_asm)+
qed

text \<open>C26: What a probe that returns 0 has done. The controller has its slave address, is otherwise cleared, idle, not
  suspended, and ready for a transfer: what the transfer theorems ask of its state. If the clock could be enabled
  the probe holds the prepared clock, the frequency hook and the adapter, with the clock gated, except that
  with interrupt number 0 (an error that is returned as 0) it holds nothing and has added no adapter. If the
  clock could not be enabled, which is not looked at, a clock that was never enabled has been disabled.\<close>
theorem i2c_probe_success:
  assumes "s3c24xx_i2c_probe hw env = Inr (0, es, Some (s, pd))"
  shows "(if clk_enable_ret env \<noteq> 0 then hd es = Rel Enabled \<and> ledger es = None
     else if \<not> has (quirks s) QUIRK_POLL \<and> irq_ret env = 0 then Acq Adapter \<notin> set es \<and> ledger es = Some {#}
     else ledger es = Some {#Prepared, Cpufreq, Adapter#}) \<and>
    \<not> suspended s \<and> state s = STATE_IDLE \<and>
    tx_setup s = 50 \<and> s3c24xx_get_device_quirks (device env) = Inr (quirks s) \<and>
    trace s = [W IICADD (ucast (ucast (slave_addr pd) :: u8)), W IICCON 0, W IICSTAT 0]"
proof -
  obtain q pd' where q: "s3c24xx_get_device_quirks (device env) = Inr q"
      "probe_powered hw env q pd' (new_i2c q) = (0, es, Some (s, pd))"
    using probe_cases [OF assms(1)] by blast
  from probe_powered_cases [OF q(2)] obtain es' where es': "probe_irq q env = (0, es')"
      "es = clk_calls env @ es'" "s = snd (s3c24xx_i2c_init hw pd 0 (new_i2c q))"
    by auto
  have s: "quirks s = q" "\<not> suspended s" "state s = STATE_IDLE" "tx_setup s = 50"
      "trace s = [W IICADD (ucast (ucast (slave_addr pd) :: u8)), W IICCON 0, W IICSTAT 0]"
    using es'(3) by (simp_all add: s3c24xx_i2c_init_def new_i2c_def readl_def)
  show ?thesis
    using probe_irq_ok [OF es'(1)] q(1) s
    by (auto simp: es'(2) clk_ledger) (simp_all add: clk_calls_def ledger_def)
qed

text \<open>C39: A probe that fails, if the clock could be enabled, has given back exactly what it took, with two exceptions:
  when the controller's initialisation fails the prepared clock is kept; and when the adapter cannot be added, a
  power management that was never enabled is disabled with the clock prepared and the frequency hook registered,
  and both of these are given back. If the clock could not be enabled, it either had not come to the clock, or has
  disabled a clock that was never enabled.\<close>
theorem i2c_probe_failure:
  assumes "s3c24xx_i2c_probe hw env = Inr (ret, es, r)" "ret \<noteq> 0"
  shows "(clk_enable_ret env = 0 \<longrightarrow>
      ledger es = Some {#} \<or>
      clockrate_ret env \<noteq> 0 \<and> ret = - EINVAL \<and> ledger es = Some {#Prepared#} \<or>
      adapter_ret env < 0 \<and> ret = adapter_ret env \<and>
        (\<exists>es1 es2. es = es1 @ Rel PmRuntime # es2 \<and> ledger es1 = Some {#Prepared, Cpufreq#} \<and> ledger (es1 @ es2) = Some {#})) \<and>
    (clk_enable_ret env \<noteq> 0 \<longrightarrow> es = [] \<or> hd es = Rel Enabled \<and> ledger es = None)"
proof -
  consider "es = []" | q pd where "probe_powered hw env q pd (new_i2c q) = (ret, es, r)"
    using probe_cases [OF assms(1)] by blast
  then show ?thesis
  proof cases
    case 2
    then consider "clockrate_ret env \<noteq> 0" "ret = - EINVAL" "es = clk_calls env @ []" | es' where
        "probe_irq q env = (ret, es')" "es = clk_calls env @ es'"
      using probe_powered_cases [OF 2] by auto
    then show ?thesis
    proof cases
      case 1
      moreover have "ledger [Acq Prepared] = Some {#Prepared#}" by (simp add: ledger_def)
      ultimately show ?thesis using clk_ledger [of env "[]"] by simp
    next
      case (2 es')
      then consider "es' = [Rel Prepared]" | "adapter_ret env < 0" "ret = adapter_ret env"
          "es' = [Acq Cpufreq] @ Rel PmRuntime # [Rel Cpufreq, Rel Prepared]"
        using probe_irq_failed [OF 2(1) assms(2)] by auto
      then show ?thesis
      proof cases
        case 1
        moreover have "ledger [Acq Prepared, Rel Prepared] = Some {#}" by (simp add: ledger_def)
        ultimately show ?thesis using clk_ledger [of env "[Rel Prepared]"] 2(2) by simp
      next
        case 2
        let ?es1 = "clk_calls env @ [Acq Cpufreq]" and ?es2 = "[Rel Cpufreq, Rel Prepared]"
        have "es = ?es1 @ Rel PmRuntime # ?es2" using \<open>es = clk_calls env @ es'\<close> 2(3) by simp
        moreover have "ledger ?es1 = Some {#Prepared, Cpufreq#}" "ledger (?es1 @ ?es2) = Some {#}" if "clk_enable_ret env = 0"
          using that by (simp_all add: clk_calls_def ledger_def)
        ultimately show ?thesis using 2(1,2) clk_ledger(2,3) [of env es'] \<open>es = clk_calls env @ es'\<close> by metis
      qed
    qed
  qed (simp add: ledger_def)
qed

text \<open>Interrupt number 0 counts as an error but is returned as the result: the probe function
  reports success with everything given back and no adapter.\<close>
theorem i2c_probe_irq_zero:
  assumes "probe_irq q env = (ret, es)" "\<not> has q QUIRK_POLL" "irq_ret env = 0"
  shows "ret = 0 \<and> (clk_enable_ret env = 0 \<longrightarrow> ledger (clk_calls env @ es) = Some {#})"
  using assms by (auto simp: probe_irq_def clk_ledger) (simp add: ledger_def)

definition i2c_env0 :: i2c_env where
  "i2c_env0 = \<lparr>device = OfNode ''samsung,s3c2440-i2c'', platdata = None, dt_delay = None, dt_addr = Some 0x10,
     dt_freq = None, i2c_alloc = True, pdata_alloc = True, clk_found = True, regs_err = None,
     pinctrl_err = False, parse_gpio_ret = 0, clk_enable_ret = 0, clockrate_ret = 0, irq_ret = 43, request_ret = 0,
     cpufreq_ret = 0, adapter_ret = 0\<rparr>"


lemma i2c_env0_probe:
  "\<exists>es s pd. s3c24xx_i2c_probe hw i2c_env0 = Inr (0, es, Some (s, pd))"
  by (simp add: s3c24xx_i2c_probe_def i2c_env0_def s3c24xx_get_device_quirks_def s3c24xx_i2c_match_def
      s3c24xx_i2c_init_def probe_powered_def probe_irq_def probe_register_def Let_def)

theorem i2c_probe_success_witness:
  "\<exists>es s pd. s3c24xx_i2c_probe (\<lambda>_ _. 0) i2c_env0 = Inr (0, es, Some (s, pd)) \<and>
     ledger es = Some {#Prepared, Cpufreq, Adapter#}"
proof -
  obtain es s pd where p: "s3c24xx_i2c_probe (\<lambda>_ _. 0) i2c_env0 = Inr (0, es, Some (s, pd))"
    using i2c_env0_probe by blast
  from i2c_probe_success [OF p] show ?thesis using p by (auto simp: i2c_env0_def)
qed

text \<open>The adapter cannot be added.\<close>

theorem i2c_probe_failure_witness:
  "\<exists>es. s3c24xx_i2c_probe (\<lambda>_ _. 0) (i2c_env0\<lparr>adapter_ret := - EBUSY\<rparr>) = Inr (- EBUSY, es, None) \<and>
     (\<exists>es1 es2. es = es1 @ Rel PmRuntime # es2 \<and> ledger es1 = Some {#Prepared, Cpufreq#} \<and> ledger (es1 @ es2) = Some {#})"
proof -
  obtain es where p: "s3c24xx_i2c_probe (\<lambda>_ _. 0) (i2c_env0\<lparr>adapter_ret := - EBUSY\<rparr>) = Inr (- EBUSY, es, None)"
      "ledger es = None"
    by (simp add: s3c24xx_i2c_probe_def i2c_env0_def s3c24xx_get_device_quirks_def s3c24xx_i2c_match_def
        s3c24xx_i2c_init_def probe_powered_def probe_irq_def probe_register_def Let_def ledger_def i2c_consts)
  from i2c_probe_failure [OF p(1)] show ?thesis using p by (auto simp: i2c_env0_def)
qed

theorem i2c_probe_irq_zero_witness:
  "fst (probe_irq QUIRK_S3C2440 (i2c_env0\<lparr>irq_ret := 0\<rparr>)) = 0"
  using i2c_probe_irq_zero [of QUIRK_S3C2440 "i2c_env0\<lparr>irq_ret := 0\<rparr>" "fst (probe_irq QUIRK_S3C2440 (i2c_env0\<lparr>irq_ret := 0\<rparr>))"
    "snd (probe_irq QUIRK_S3C2440 (i2c_env0\<lparr>irq_ret := 0\<rparr>))"]
  by (simp add: i2c_env0_def i2c_consts)

end
