(* ===== verification/I2C_Types.thy ===== *)
theory I2C_Types
  imports I2C_Props
begin

text \<open>
  The S3C2440 I2C controller driver: what it may do to the messages it is given. Whatever the controller answers it
  keeps their shape: their number, addresses, flags and buffer sizes, and the lengths the slave does
  not set; and in interrupt mode it writes to no buffer before the first read.
\<close>

section \<open>Relations between messages\<close>

text \<open>The shape of a message; the length is part of it unless the slave sends it.\<close>

definition msg_type :: "i2c_msg \<Rightarrow> u16 \<times> u16 \<times> nat \<times> u16 option" where
  "msg_type m = (msg_addr m, msg_flags m, length (msg_buf m),
     if has (msg_flags m) I2C_M_RECV_LEN then None else Some (msg_len m))"

definition same_shape :: "i2c_msg list \<Rightarrow> i2c_msg list \<Rightarrow> bool" where
  "same_shape a b \<longleftrightarrow> map msg_type b = map msg_type a"

text \<open>And the messages up to the first read are the same, contents and all.\<close>

definition kept :: "i2c_msg list \<Rightarrow> i2c_msg list \<Rightarrow> bool" where
  "kept a b \<longleftrightarrow> same_shape a b \<and> (\<forall>k < length a. \<not> turned a (Suc k) \<longrightarrow> b ! k = a ! k)"

lemma same_shape_nth: "same_shape a b \<Longrightarrow> k < length a \<Longrightarrow> msg_type (b ! k) = msg_type (a ! k)"
  unfolding same_shape_def by (metis length_map nth_map)

lemma same_shape_turned: "same_shape a b \<Longrightarrow> k \<le> length a \<Longrightarrow> turned b k = turned a k"
  using same_shape_nth [of a b] by (auto simp: turned_def msg_type_def)

text \<open>What the proofs need of such a relation.\<close>

locale message_relation =
  fixes rel :: "i2c_msg list \<Rightarrow> i2c_msg list \<Rightarrow> bool"
  assumes rel_refl: "rel a a" and rel_trans: "rel a b \<Longrightarrow> rel b c \<Longrightarrow> rel a c"

definition keeps :: "(i2c_msg list \<Rightarrow> i2c_msg list \<Rightarrow> bool) \<Rightarrow> s3c24xx_i2c \<Rightarrow> s3c24xx_i2c \<Rightarrow> bool" where
  "keeps rel s t \<longleftrightarrow> quirks t = quirks s \<and> rel (msgs s) (msgs t)"

definition keeping :: "(i2c_msg list \<Rightarrow> i2c_msg list \<Rightarrow> bool) \<Rightarrow> fault + s3c24xx_i2c \<Rightarrow> s3c24xx_i2c \<Rightarrow> bool" where
  "keeping rel r s \<longleftrightarrow> (\<forall>t. r = Inr t \<longrightarrow> keeps rel s t)"

text \<open>The polling loop keeps the relation, or is not used.\<close>

definition poll_keeps :: "(i2c_msg list \<Rightarrow> i2c_msg list \<Rightarrow> bool) \<Rightarrow> poll \<Rightarrow> s3c24xx_i2c \<Rightarrow> bool" where
  "poll_keeps rel poll s \<longleftrightarrow> has (quirks s) QUIRK_POLL \<longrightarrow> (\<forall>stat t. keeping rel (poll stat t) t)"

lemma keeps_update [simp]:
  "keeps rel s (t\<lparr>msg := a\<rparr>) = keeps rel s t" "keeps rel s (t\<lparr>msg_num := b\<rparr>) = keeps rel s t"
  "keeps rel s (t\<lparr>msg_idx := b\<rparr>) = keeps rel s t" "keeps rel s (t\<lparr>msg_ptr := b\<rparr>) = keeps rel s t"
  "keeps rel s (t\<lparr>state := c\<rparr>) = keeps rel s t" "keeps rel s (emit e t) = keeps rel s t"
  "keeps rel s (snd (readl hw r t)) = keeps rel s t" "keeps rel s (next_msg t) = keeps rel s t"
  by (simp_all add: keeps_def next_msg_def frame)

lemma keeping_Inr [simp]: "keeping rel (Inr t) s = keeps rel s t" "keeping rel (Inl e) s"
  by (simp_all add: keeping_def)

lemma keeping_ebind: "(\<And>a. m = Inr a \<Longrightarrow> keeping rel (f a) s) \<Longrightarrow> keeping rel (ebind m f) s"
  by (cases m) simp_all

lemma keeping_then: "keeping rel m s \<Longrightarrow> (\<And>t. keeps rel s t \<Longrightarrow> keeping rel (f t) s) \<Longrightarrow> keeping rel (ebind m f) s"
  by (cases m) simp_all

lemma keeps_same: "keeps rel s t \<Longrightarrow> same t u \<Longrightarrow> keeps rel s u"
  by (simp add: keeps_def same_def)

lemma keeps_poll: "keeps rel s t \<Longrightarrow> poll_keeps rel poll t = poll_keeps rel poll s"
  by (simp add: keeps_def poll_keeps_def)

lemma keeps_helpers:
  "keeps rel s t \<Longrightarrow> keeps rel s (s3c24xx_i2c_disable_ack hw t)" "keeps rel s t \<Longrightarrow> keeps rel s (s3c24xx_i2c_enable_ack hw t)"
  "keeps rel s t \<Longrightarrow> keeps rel s (s3c24xx_i2c_disable_irq hw t)" "keeps rel s t \<Longrightarrow> keeps rel s (s3c24xx_i2c_enable_irq hw t)"
  "keeps rel s t \<Longrightarrow> keeps rel s (out_ack hw t)" "keeps rel s t \<Longrightarrow> keeps rel s (s3c24xx_i2c_disable_bus hw t)"
  by (blast intro: keeps_same same_helpers same_disable_bus)+

lemma keeps_stop: "keeps rel s t \<Longrightarrow> keeps rel s (s3c24xx_i2c_stop hw t ret)"
  using stop_completed [of ret t hw] by (simp add: keeps_def completed_def)

lemma keeps_is_ack: "keeps rel s t \<Longrightarrow> keeps rel s (snd (is_ack hw t))"
proof -
  have "keeps rel s t \<Longrightarrow> keeps rel s (snd (is_ack_loop n hw t))" for n
    by (induction n arbitrary: t) (simp_all add: split_def Let_def)
  then show "keeps rel s t \<Longrightarrow> keeps rel s (snd (is_ack hw t))" by (simp add: is_ack_def)
qed

lemma keeping_prepare_read: "keeps rel s t \<Longrightarrow> keeping rel (prepare_read hw t) s"
  unfolding prepare_read_def by (intro keeping_ebind) (auto intro!: keeping_ebind keeps_helpers keeps_stop)

section \<open>The operations that store nothing\<close>

context message_relation
begin

lemma keeps_refl [simp]: "keeps rel s s"
  by (simp add: keeps_def rel_refl)

lemma keeps_trans: "keeps rel s t \<Longrightarrow> keeps rel t u \<Longrightarrow> keeps rel s u"
  using rel_trans by (auto simp: keeps_def)

lemma keeping_trans: "keeps rel s t \<Longrightarrow> keeping rel r t \<Longrightarrow> keeping rel r s"
  using keeps_trans by (auto simp: keeping_def)

lemma keeping_message_start:
  assumes "poll_keeps rel poll s" "keeps rel s t"
  shows "keeping rel (s3c24xx_i2c_message_start poll hw t m) s"
proof -
  have "keeping rel (poll stat u) s" if "keeps rel s u" "has (quirks u) QUIRK_POLL" for stat u
    using assms(1) keeping_trans [OF that(1)] that by (simp add: poll_keeps_def keeps_def)
  then show ?thesis
    using keeps_helpers(2) [OF assms(2), of hw] by (simp add: s3c24xx_i2c_message_start_def split_def Let_def)
qed

lemma keeping_retry_write:
  "poll_keeps rel poll s \<Longrightarrow> keeps rel s t \<Longrightarrow> keeping rel (retry_write poll hw t) s"
proof (induction poll hw t rule: retry_write.induct)
  case (1 poll hw t)
  have "keeping rel (if has (msg_flags m') I2C_M_NOSTART
        then (if has (msg_flags m') I2C_M_RD
              then retry_write poll hw (s3c24xx_i2c_stop hw (next_msg t) (- EINVAL))
              else retry_write poll hw (next_msg t))
        else ebind (s3c24xx_i2c_message_start poll hw (next_msg t) m') (\<lambda>s. Inr (s\<lparr>state := STATE_START\<rparr>))) s"
    if "cur_msg t = Inr m" "\<not> \<not> ucast (msg_len m) \<le> msg_ptr t" "\<not> is_lastmsg t" "cur_msg (next_msg t) = Inr m'" for m m'
    using 1(1,2) [OF that _ _ "1.prems"(1)] "1.prems" keeps_stop [of rel s "next_msg t" hw]
      keeping_then [OF keeping_message_start [OF "1.prems"(1), of "next_msg t"]]
    by simp
  then show ?case
    unfolding retry_write.simps [of poll hw t]
    by (intro keeping_ebind) (auto simp: Let_def "1.prems"(2) keeps_stop intro!: keeping_ebind)
qed

lemma keeping_write_state: "poll_keeps rel poll s \<Longrightarrow> keeps rel s t \<Longrightarrow> keeping rel (write_state poll hw t stat) s"
  unfolding write_state_def by (intro keeping_ebind) (simp add: keeps_stop keeping_retry_write)

lemma keeping_start_state: "poll_keeps rel poll s \<Longrightarrow> keeps rel s t \<Longrightarrow> keeping rel (start_state poll hw t stat) s"
  unfolding start_state_def
  by (intro keeping_ebind) (simp add: keeps_stop keeping_write_state keeping_prepare_read Let_def)

text \<open>So the handler keeps the relation if the reading state does.\<close>

lemma keeping_nextbyte:
  assumes "poll_keeps rel poll s" "keeps rel s t" and rd: "state t = STATE_READ \<Longrightarrow> keeping rel (read_state hw t) s"
  shows "keeping rel (i2c_s3c_irq_nextbyte poll hw t stat) s"
  unfolding i2c_s3c_irq_nextbyte_def using assms keeping_write_state keeping_start_state
  by (cases "state t") (simp_all add: keeps_helpers keeping_then)

end

section \<open>Reading\<close>

lemma cur_msg_at: "cur_msg s = Inr m \<Longrightarrow> \<exists>k. msg s = Some k \<and> k < length (msgs s) \<and> msgs s ! k = m"
  by (auto simp: cur_msg_def get_def split: option.splits if_splits)

text \<open>A byte received goes into the current message, whose shape it keeps.\<close>

lemma keeping_read_state:
  assumes upd: "\<And>k m. msg s = Some k \<Longrightarrow> k < length (msgs s) \<Longrightarrow> msg_type m = msg_type (msgs s ! k) \<Longrightarrow>
    rel (msgs s) ((msgs s)[k := m])"
  shows "keeping rel (read_state hw s) s"
proof -
  let ?u = "snd (readl hw IICDS s)"
  have step: "keeping rel (prepare_read hw (set_cur_msg m' (?u\<lparr>msg_ptr := p\<rparr>))) s"
    if m: "cur_msg ?u = Inr m" "msg_type m' = msg_type m" for m m' p
  proof (rule keeping_prepare_read)
    obtain k where "msg ?u = Some k" "k < length (msgs ?u)" "msgs ?u ! k = m" using cur_msg_at [OF m(1)] by blast
    then show "keeps rel s (set_cur_msg m' (?u\<lparr>msg_ptr := p\<rparr>))"
      using upd [of k m'] m(2) by (simp add: keeps_def set_cur_msg_def frame)
  qed
  show ?thesis
    unfolding read_state_def split_def Let_def
    by ((rule keeping_ebind)+, erule step) (auto simp: msg_type_def put_def split: if_splits)
qed

lemma same_shape_update: "k < length a \<Longrightarrow> msg_type m = msg_type (a ! k) \<Longrightarrow> same_shape a (a[k := m])"
  unfolding same_shape_def by (metis list_update_id map_update)

lemma kept_update: "k < length a \<Longrightarrow> msg_type m = msg_type (a ! k) \<Longrightarrow> turned a (Suc k) \<Longrightarrow> kept a (a[k := m])"
  unfolding kept_def using same_shape_update [of k a m] by (metis nth_list_update_neq)

interpretation shape: message_relation same_shape
  by unfold_locales (simp_all add: same_shape_def)

lemma kept_trans: "kept a b \<Longrightarrow> kept b c \<Longrightarrow> kept a c"
proof -
  assume a: "kept a b" and b: "kept b c"
  have len: "length b = length a" using a unfolding kept_def same_shape_def by (metis length_map)
  have "c ! k = a ! k" if "k < length a" "\<not> turned a (Suc k)" for k
    using a b that len same_shape_turned [of a b "Suc k"] by (simp add: kept_def)
  then show "kept a c" using a b by (simp add: kept_def same_shape_def)
qed

interpretation kept: message_relation kept
  by unfold_locales (simp add: kept_def same_shape_def, rule kept_trans)

section \<open>Interrupts\<close>

lemma irq_keeps:
  assumes inv: "irq_inv s" and irq: "s3c24xx_i2c_irq poll hw s = Inr t"
  shows "kept (msgs s) (msgs t)"
proof -
  let ?u = "snd (readl hw IICSTAT s)"
  have u: "keeps kept s ?u" "state ?u = state s" "msg ?u = msg s" "msgs ?u = msgs s" by (simp_all add: frame)
  have p: "poll_keeps kept poll s" using inv by (simp add: irq_inv_def poll_keeps_def)
  have "keeping kept (read_state hw ?u) ?u" if "state ?u = STATE_READ"
  proof (rule keeping_read_state)
    fix k m assume "msg ?u = Some k" "k < length (msgs ?u)" "msg_type m = msg_type (msgs ?u ! k)"
    moreover have "turned (msgs s) (Suc k)" using inv that \<open>msg ?u = Some k\<close> u by (auto simp: irq_inv_def at_msg_def)
    ultimately show "kept (msgs ?u) ((msgs ?u)[k := m])" by (simp add: kept_update u(4))
  qed
  then have "keeping kept (read_state hw ?u) s" if "state ?u = STATE_READ" using kept.keeping_trans [OF u(1)] that by blast
  from kept.keeping_nextbyte [OF p u(1) this] show ?thesis
    using irq keeps_helpers(5) [OF u(1), of hw] unfolding irq_unfold Let_def
    by (auto simp: keeping_def keeps_def split: if_splits)
qed

lemma wait_done_keeps: "irq_inv s \<Longrightarrow> wait_done poll hw n s = Inr t \<Longrightarrow> kept (msgs s) (msgs t)"
proof (induction n arbitrary: s)
  case (Suc n)
  obtain u where u: "s3c24xx_i2c_irq poll hw s = Inr u" "irq_inv u"
    using irq_ok [OF Suc.prems(1)] by (auto simp: ok_def)
  then have "wait_done poll hw n u = Inr t \<Longrightarrow> kept (msgs s) (msgs t)"
    using Suc.IH irq_keeps [OF Suc.prems(1)] kept_trans by blast
  then show ?case using Suc.prems(2) u(1) kept.rel_refl by (auto simp: wait_done.simps(2) split: if_splits)
qed (simp add: kept.rel_refl)

section \<open>Transfers\<close>

text \<open>Either the messages are those asked for, kept, or nothing was started.\<close>

definition handled :: "s3c24xx_i2c \<Rightarrow> i2c_msg list \<Rightarrow> s3c24xx_i2c \<Rightarrow> bool" where
  "handled s ms t \<longleftrightarrow> kept ms (msgs t) \<or> msgs t = msgs s \<and> ds_writes t = ds_writes s"

lemma doxfer_kept:
  assumes "\<not> has (quirks s) QUIRK_POLL" "safe_msgs ms" "ms \<noteq> []" "length ms < 2 ^ 31"
    and "clock_ok (ktime env)" "19 \<le> fuel env"
  shows "\<exists>ret t. s3c24xx_i2c_doxfer env hw s ms (int (length ms)) = Inr (ret, t) \<and> \<not> has (quirks t) QUIRK_POLL \<and>
    handled s ms t \<and> (\<not> suspended s \<and> bus_free hw s \<longrightarrow> kept ms (msgs t))"
proof (cases "suspended s \<or> \<not> bus_free hw s")
  case True
  then show ?thesis
    using doxfer_no_bus [OF True, of env ms "int (length ms)"] assms(1) by (auto simp: same_def handled_def)
next
  case False
  then obtain v w ret t where "s3c24xx_i2c_doxfer env hw s ms (int (length ms)) = Inr (ret, t)" "irq_inv v"
      "msgs v = ms" "wait_done (poll_loop (fuel env) hw) hw (nirq env) v = Inr w" "irq_inv w" "msgs t = msgs w"
      "quirks t = quirks w"
    using doxfer_runs [OF assms, of hw] by blast
  then show ?thesis using wait_done_keeps [of v] by (auto simp: handled_def irq_inv_def)
qed

lemma xfer_loop_kept:
  assumes "safe_msgs ms" "ms \<noteq> []" "length ms < 2 ^ 31" "\<forall>k. clock_ok (ktime (envs k)) \<and> 19 \<le> fuel (envs k)"
  shows "\<not> has (quirks s) QUIRK_POLL \<Longrightarrow> \<exists>ret t. xfer_loop n envs k hw s ms (int (length ms)) = Inr (ret, t) \<and>
    handled s ms t \<and> (0 < n \<and> \<not> suspended s \<and> bus_free hw s \<longrightarrow> kept ms (msgs t))"
proof (induction n arbitrary: k s)
  case (Suc n)
  have "clock_ok (ktime (envs k))" "19 \<le> fuel (envs k)" using assms(4) by blast+
  from doxfer_kept [OF Suc.prems assms(1-3) this] obtain ret u where
    u: "s3c24xx_i2c_doxfer (envs k) hw s ms (int (length ms)) = Inr (ret, u)" "\<not> has (quirks u) QUIRK_POLL"
      "handled s ms u" "\<not> suspended s \<and> bus_free hw s \<longrightarrow> kept ms (msgs u)" by blast
  from Suc.IH [of "emit (Udelay 100) u" "Suc k"] u(2) obtain ret' t where
    "xfer_loop n envs (Suc k) hw (emit (Udelay 100) u) ms (int (length ms)) = Inr (ret', t)" "handled u ms t"
    by (auto simp: handled_def)
  then show ?case using u by (auto simp: handled_def)
qed (simp add: handled_def)

text \<open>C21: A transfer in interrupt mode, of any messages that are safe to transfer, returns and keeps the types of what it
  works on: the controller's messages are then those it was given, with the same number, addresses, flags
  and buffer sizes, and the same lengths but for a block read, whose length the slave sends; and every message
  up to the first read has its contents, whatever the controller answered. Only a transfer that could not
  start (no clock, no attempts, suspended, or no free bus at first) may leave the messages of the one before,
  and then it has put nothing on the bus.\<close>
theorem xfer_keeps_types:
  assumes "\<not> has (quirks s) QUIRK_POLL" "safe_msgs ms" "ms \<noteq> []" "length ms < 2 ^ 31"
    and "\<forall>k. clock_ok (ktime (envs k)) \<and> 19 \<le> fuel (envs k)"
  shows "\<exists>ret t. s3c24xx_i2c_xfer retries clk_ret envs hw s ms (int (length ms)) = Inr (ret, t) \<and>
    (map msg_type (msgs t) = map msg_type ms \<and> (\<forall>k < length ms. \<not> turned ms (Suc k) \<longrightarrow> msgs t ! k = ms ! k) \<or>
     \<not> (clk_ret = 0 \<and> 0 < retries \<and> \<not> suspended s \<and> bus_free hw s) \<and> msgs t = msgs s \<and> ds_writes t = ds_writes s)"
proof (cases "clk_ret = 0")
  case True
  obtain ret t where t: "xfer_loop retries envs 0 hw (emit ClkEnable s) ms (int (length ms)) = Inr (ret, t)"
      "handled (emit ClkEnable s) ms t"
      "0 < retries \<and> \<not> suspended (emit ClkEnable s) \<and> bus_free hw (emit ClkEnable s) \<longrightarrow> kept ms (msgs t)"
    using xfer_loop_kept [OF assms(2-5), of "emit ClkEnable s" retries 0 hw] assms(1) by auto
  moreover have "bus_free hw (emit ClkEnable s) = bus_free hw s" by (simp add: bus_free_def)
  ultimately show ?thesis
    using True by (auto simp: s3c24xx_i2c_xfer_def handled_def kept_def same_shape_def)
qed (simp add: s3c24xx_i2c_xfer_def)

theorem xfer_keeps_types_witness:
  "\<exists>ret t. s3c24xx_i2c_xfer 2 0 (\<lambda>_. env_ok) (\<lambda>r k. if r = IICDS then 7 else 0) i2c0 random_read 2 = Inr (ret, t) \<and>
     map (\<lambda>m. length (msg_buf m)) (msgs t) = [1, 2] \<and> msgs t ! 0 = random_read ! 0"
proof -
  let ?hw = "\<lambda>r k. if r = IICDS then 7 else 0"
  have "\<forall>k. clock_ok (ktime env_ok) \<and> 19 \<le> fuel env_ok" by (simp add: env_ok_def clock_ok_1000)
  moreover have "random_read \<noteq> []" by (simp add: random_read_def)
  moreover have free: "bus_free ?hw i2c0" by (auto simp: bus_free_def intro: exI [of _ 0])
  ultimately obtain ret t where t: "s3c24xx_i2c_xfer 2 0 (\<lambda>_. env_ok) ?hw i2c0 random_read 2 = Inr (ret, t)"
      "map msg_type (msgs t) = map msg_type random_read"
      "\<forall>k < length random_read. \<not> turned random_read (Suc k) \<longrightarrow> msgs t ! k = random_read ! k"
    using xfer_keeps_types [of i2c0 random_read "\<lambda>_. env_ok" 2 0 ?hw] random_read_safe example_facts by auto
  have eq: "map (\<lambda>m. length (msg_buf m)) ms = map (\<lambda>x. fst (snd (snd x))) (map msg_type ms)" for ms
    by (simp add: msg_type_def)
  have "map (\<lambda>m. length (msg_buf m)) (msgs t) = [1, 2]"
    unfolding eq t(2) by (simp add: random_read_def msg_type_def)
  moreover have "\<not> turned random_read (Suc 0)" by (simp add: turned_Suc random_read_def)
  then have "msgs t ! 0 = random_read ! 0" using t(3) example_facts by simp
  ultimately show ?thesis using t(1) by (intro exI [of _ ret] exI [of _ t]) simp
qed

section \<open>Polling\<close>

text \<open>In polling mode the shape is kept too, by induction on the fuel of the loop.\<close>

lemma shape_read_state: "keeping same_shape (read_state hw s) s"
  by (rule keeping_read_state) (rule same_shape_update)

lemma poll_loop_keeps: "keeping same_shape (poll_loop n hw stat s) s"
proof (induction n arbitrary: stat s)
  case (Suc n)
  let ?t = "snd (is_ack hw s)"
  have t: "keeps same_shape s ?t" by (simp add: keeps_is_ack)
  have poll: "poll_keeps same_shape (poll_loop n hw) s" using Suc by (simp add: poll_keeps_def)
  have rd: "keeping same_shape (read_state hw ?t) s" by (rule shape.keeping_trans [OF t shape_read_state])
  have "keeping same_shape (ebind (i2c_s3c_irq_nextbyte (poll_loop n hw) hw ?t stat)
      (\<lambda>s. poll_loop n hw (fst (readl hw IICSTAT s)) (snd (readl hw IICSTAT s)))) s"
  proof (rule keeping_then [OF shape.keeping_nextbyte [OF poll t rd]])
    fix u assume "keeps same_shape s u"
    then have "keeps same_shape s (snd (readl hw IICSTAT u))" by simp
    then show "keeping same_shape (poll_loop n hw (fst (readl hw IICSTAT u)) (snd (readl hw IICSTAT u))) s"
      by (rule shape.keeping_trans) (rule Suc)
  qed
  then show ?case using t by (simp add: split_def Let_def)
qed simp

text \<open>The start of a message, with the whole of the transfer in it, and the handler.\<close>

lemma message_start_shape:
  "s3c24xx_i2c_message_start (poll_loop n hw) hw s m = Inr t \<Longrightarrow> same_shape (msgs s) (msgs t)"
  using shape.keeping_message_start [of "poll_loop n hw" s s hw m] poll_loop_keeps shape.rel_refl
  by (simp add: poll_keeps_def keeping_def keeps_def)

lemma irq_shape: "s3c24xx_i2c_irq (poll_loop n hw) hw s = Inr t \<Longrightarrow> same_shape (msgs s) (msgs t)"
proof -
  let ?u = "snd (readl hw IICSTAT s)"
  have u: "keeps same_shape s ?u" by simp
  have "poll_keeps same_shape (poll_loop n hw) s" using poll_loop_keeps by (simp add: poll_keeps_def)
  note n = shape.keeping_nextbyte [OF this u shape.keeping_trans [OF u shape_read_state]]
  assume "s3c24xx_i2c_irq (poll_loop n hw) hw s = Inr t"
  then show ?thesis
    using n keeps_helpers(5) [OF u, of hw] unfolding irq_unfold Let_def
    by (auto simp: keeping_def keeps_def split: if_splits)
qed

end
