(* ===== verification/AT24.thy ===== *)
theory AT24
  imports Kernel "HOL-Library.Signed_Division"
begin

text \<open>
  The EEPROM driver, \<open>i2c/dev_drv/at24cxx_drv.c\<close>: its read and write functions. The SMBus
  layer of the kernel and the device behind it are a parameter, \<open>smbus\<close>, over a device state
  \<open>'d\<close>; so are the results of \<open>kmalloc\<close> and of the copies to and from the user.
\<close>

section \<open>The device\<close>

record at24_chip =
  byte_len :: u32
  page_size :: u16
  flags :: u8

text \<open>
  \<open>sm_read d command length\<close> is \<open>i2c_smbus_read_i2c_block_data_or_emulated\<close>: its result, the bytes
  it put into the caller's buffer, and the new state of the device. \<open>sm_write d command byte\<close> is
  \<open>i2c_smbus_write_byte_data\<close>. Both take the command (and the length) as a \<open>u8\<close>.
\<close>

record 'd smbus =
  sm_read :: "'d \<Rightarrow> u8 \<Rightarrow> u8 \<Rightarrow> (int \<times> u8 list) \<times> 'd"
  sm_write :: "'d \<Rightarrow> u8 \<Rightarrow> u8 \<Rightarrow> int \<times> 'd"

section \<open>Reading\<close>

text \<open>
  One call of the SMBus read. Its result, an \<open>int\<close> that is negative on failure, is stored in the
  unsigned \<open>len\<close>.
\<close>

definition read_once ::
  "'d smbus \<Rightarrow> 'd \<Rightarrow> u32 \<Rightarrow> u32 \<Rightarrow> u8 list \<Rightarrow> fault + (u32 \<times> 'd \<times> u8 list)" where
  "read_once sm d addr len tmp =
     (let ((r, bytes), d) = sm_read sm d (ucast addr) (ucast len)
      in ebind (store tmp 0 bytes) (\<lambda>tmp. Inr (word_of_int r, d, tmp)))"

text \<open>The label \<open>retry\<close>, with the number of retries left. \<open>len\<close> is overwritten by every attempt.\<close>

primrec read_retry ::
  "nat \<Rightarrow> 'd smbus \<Rightarrow> 'd \<Rightarrow> u32 \<Rightarrow> u32 \<Rightarrow> u8 list \<Rightarrow> fault + (u32 \<times> 'd \<times> u8 list)" where
  "read_retry 0 sm d addr len tmp = read_once sm d addr len tmp"
| "read_retry (Suc left) sm d addr len tmp =
     ebind (read_once sm d addr len tmp) (\<lambda>(len, d, tmp).
       if len \<le> 0 then read_retry left sm d addr len tmp else Inr (len, d, tmp))"

text \<open>\<open>(int)(addr + page_size) / page_size * page_size - addr\<close>, cut to what is left to read.\<close>

definition chunk_len :: "int \<Rightarrow> u32 \<Rightarrow> u32 \<Rightarrow> u32 \<Rightarrow> u32" where
  "chunk_len psize addr i cnt =
     (let len = word_of_int ((sint (addr + word_of_int psize) sdiv psize) * psize) - addr
      in if len + i > cnt then cnt - i else len)"

text \<open>
  The loop over the chunks, on fuel: \<open>i\<close> bytes have been copied to the user's buffer \<open>ubuf\<close>.
\<close>

primrec read_loop ::
  "nat \<Rightarrow> 'd smbus \<Rightarrow> (nat \<Rightarrow> nat \<Rightarrow> nat) \<Rightarrow> int \<Rightarrow> int \<Rightarrow> u32 \<Rightarrow> u32 \<Rightarrow> 'd \<Rightarrow> u8 list \<Rightarrow> u8 list \<Rightarrow>
    fault + (int \<times> 'd \<times> u8 list)" where
  "read_loop 0 sm uncopied psize f_pos cnt i d tmp ubuf = Inl OutOfFuel"
| "read_loop (Suc n) sm uncopied psize f_pos cnt i d tmp ubuf =
     (if i < cnt then
        let addr = word_of_int (f_pos + sint i);
            len = chunk_len psize addr i cnt
        in ebind (read_retry 5 sm d addr len tmp) (\<lambda>(len, d, tmp).
             if len \<le> 0 then Inr (sint i, d, ubuf)
             else ebind (copy_to_user uncopied ubuf (unat i) tmp (unat len)) (\<lambda>(ret, ubuf).
               if ret \<noteq> 0 then Inr (- EFAULT, d, ubuf)
               else read_loop n sm uncopied psize f_pos cnt (i + len) d tmp ubuf))
      else Inr (sint i, d, ubuf))"

text \<open>
  \<open>kmalloc\<close> returns a buffer of \<open>page_size\<close> bytes with some contents, or nothing. The result is
  the return value, the device, the user's buffer and the file position.
\<close>

definition at24_read ::
  "nat \<Rightarrow> 'd smbus \<Rightarrow> (nat \<Rightarrow> nat \<Rightarrow> nat) \<Rightarrow> u8 list option \<Rightarrow> at24_chip \<Rightarrow> u8 list \<Rightarrow> u32 \<Rightarrow> int \<Rightarrow> 'd \<Rightarrow>
    fault + (int \<times> 'd \<times> u8 list \<times> int)" where
  "at24_read fuel sm uncopied kmalloc chip ubuf cnt f_pos d =
     (let psize = int (unat (page_size chip)) in
      if f_pos \<ge> int (unat (byte_len chip)) then Inr (0, d, ubuf, f_pos)
      else case kmalloc of
        None \<Rightarrow> Inr (- EFAULT, d, ubuf, f_pos)
      | Some tmp \<Rightarrow>
          if psize = 0 \<and> 0 < cnt then Inl DivByZero
          else ebind (read_loop fuel sm uncopied psize f_pos cnt 0 d tmp ubuf) (\<lambda>(ret, d, ubuf).
            Inr (ret, d, ubuf, if ret > 0 then f_pos + ret else f_pos)))"

section \<open>Writing\<close>

primrec write_retry :: "nat \<Rightarrow> 'd smbus \<Rightarrow> 'd \<Rightarrow> u8 \<Rightarrow> u8 \<Rightarrow> int \<times> 'd" where
  "write_retry 0 sm d command tmp = sm_write sm d command tmp"
| "write_retry (Suc left) sm d command tmp =
     (let (ret, d) = sm_write sm d command tmp
      in if ret < 0 then write_retry left sm d command tmp else (ret, d))"

text \<open>
  One byte at a time; \<open>user k\<close> is the \<open>k\<close>-th byte of the user's buffer, \<open>None\<close> where it cannot be
  read. The result has the number of bytes the device took.
\<close>

function write_loop ::
  "'d smbus \<Rightarrow> (nat \<Rightarrow> u8 option) \<Rightarrow> int \<Rightarrow> u32 \<Rightarrow> u32 \<Rightarrow> 'd \<Rightarrow> int \<times> u32 \<times> 'd" where
  "write_loop sm user f_pos cnt i d =
     (if i < cnt then
        case user (unat i) of
          None \<Rightarrow> (- EFAULT, i, d)
        | Some tmp \<Rightarrow>
            (let (ret, d) = write_retry 5 sm d (word_of_int (f_pos + sint i)) tmp
             in if ret < 0 then (ret, i, d) else write_loop sm user f_pos cnt (i + 1) d)
      else (sint i, i, d))"
  by pat_completeness auto
termination
  by (relation "measure (\<lambda>(_, _, _, cnt, i, _). unat cnt - unat i)")
    (auto simp: unat_plus_1_less word_less_nat_alt intro!: diff_less_mono2)

declare write_loop.simps [simp del]

definition at24_write ::
  "'d smbus \<Rightarrow> (nat \<Rightarrow> u8 option) \<Rightarrow> u32 \<Rightarrow> int \<Rightarrow> 'd \<Rightarrow> int \<times> 'd \<times> int" where
  "at24_write sm user cnt f_pos d =
     (let (ret, i, d) = write_loop sm user f_pos cnt 0 d
      in (ret, d, if i < cnt then f_pos else f_pos + sint i))"

end
