(* ===== verification/AT24_Props.thy ===== *)
theory AT24_Props
  imports AT24
begin

text \<open>
  What the EEPROM driver's read and write functions do with a device that behaves as its data sheet
  and the SMBus layer promise, ready or still completing a write, and what they do when it does not.
\<close>

section \<open>The contract of the device\<close>

text \<open>
  A 24C02 has 256 cells; a sequential access wraps around at the end. A block read of a
  positive length changes no cell. If the device is ready it answers with at least one and at most that many
  bytes and stays ready; while it still completes a write (\<open>i2c/note.md\<close>: reads fail if the previous
  write didn't complete yet) the SMBus layer returns a negative error.
\<close>

definition bytes_at :: "u8 list \<Rightarrow> nat \<Rightarrow> nat \<Rightarrow> u8 list" where
  "bytes_at mem a n = map (\<lambda>j. mem ! ((a + j) mod 256)) [0..<n]"

definition reads_ok :: "'d smbus \<Rightarrow> ('d \<Rightarrow> u8 list) \<Rightarrow> ('d \<Rightarrow> bool) \<Rightarrow> bool" where
  "reads_ok sm cells idle \<longleftrightarrow> (\<forall>d command len. 0 < len \<longrightarrow>
     (if idle d then \<exists>n d'. 0 < n \<and> n \<le> unat len \<and> cells d' = cells d \<and> idle d' \<and>
        sm_read sm d command len = ((int n, bytes_at (cells d) (unat command) n), d')
      else \<exists>r bytes d'. - 4096 < r \<and> r < 0 \<and> length bytes \<le> unat len \<and> cells d' = cells d \<and>
        sm_read sm d command len = ((r, bytes), d')))"

text \<open>A write of a byte either takes it (a result that is not negative) or changes nothing.\<close>

definition writes_ok :: "'d smbus \<Rightarrow> ('d \<Rightarrow> u8 list) \<Rightarrow> bool" where
  "writes_ok sm cells \<longleftrightarrow> (\<forall>d command b. case sm_write sm d command b of (ret, d') \<Rightarrow>
     cells d' = (if ret < 0 then cells d else (cells d)[unat command := b]))"

lemma length_bytes_at [simp]: "length (bytes_at mem a n) = n"
  by (simp add: bytes_at_def)

lemma nth_bytes_at [simp]: "j < n \<Longrightarrow> bytes_at mem a n ! j = mem ! ((a + j) mod 256)"
  by (simp add: bytes_at_def)

lemma bytes_at_mod: "bytes_at mem (a mod 256) n = bytes_at mem a n"
  by (simp add: bytes_at_def mod_add_left_eq)

lemma take_bytes_at: "m \<le> n \<Longrightarrow> take m (bytes_at mem a n) = bytes_at mem a m"
  by (simp add: bytes_at_def take_map min_def)

lemma bytes_at_append: "bytes_at mem a m @ bytes_at mem (a + m) n = bytes_at mem a (m + n)"
  by (rule nth_equalityI) (auto simp: nth_append add.assoc)

section \<open>Reading\<close>

text \<open>A chunk ends at the end of the page, or of the request.\<close>

lemma sint_of_nat_u32: "n < 2 ^ 31 \<Longrightarrow> sint (of_nat n :: u32) = int n"
  using sint_word_of_int_errno [of "int n"] by simp

lemma chunk_len_page:
  assumes p: "0 < p" "a + p < 2 ^ 31" and k: "k < N" "N < 2 ^ 31" "p < 2 ^ 30"
  shows "chunk_len (int p) (of_nat a) (of_nat k) (of_nat N) = of_nat (min (p - a mod p) (N - k))"
proof -
  let ?m = "p - a mod p"
  have m: "0 < ?m" "?m \<le> p" using p by simp_all
  have "sint (of_nat a + word_of_int (int p) :: u32) = int (a + p)"
    using sint_of_nat_u32 [of "a + p"] p by simp
  moreover have "(int (a + p) sdiv int p) * int p = int (a + p) - int (a mod p)"
  proof -
    have "int (a + p) sdiv int p = int ((a + p) div p)"
      by (simp add: signed_divide_int_def sgn_if zdiv_int flip: of_nat_add)
    moreover have "(a + p) div p * p = a + p - a mod p"
      using p by (simp add: algebra_simps minus_mod_eq_mult_div [symmetric])
    moreover have "a mod p \<le> a + p" by (rule le_trans [OF mod_less_eq_dividend]) simp
    ultimately show ?thesis by (metis of_nat_diff of_nat_mult)
  qed
  ultimately have "word_of_int ((sint (of_nat a + word_of_int (int p) :: u32) sdiv int p) * int p) -
      of_nat a = (of_nat ?m :: u32)"
    using p by (simp add: of_nat_diff)
  moreover have "of_nat ?m + of_nat k > (of_nat N :: u32) \<longleftrightarrow> N < ?m + k"
  proof -
    have "?m + k < 2 ^ 32" using m k by simp
    then show ?thesis
      using k by (simp add: word_less_nat_alt unat_of_nat_u32 flip: of_nat_add)
  qed
  ultimately show ?thesis
    using k(1) by (auto simp: chunk_len_def Let_def min_def of_nat_diff)
qed


lemma u8_command: "unat (ucast (of_nat a :: u32) :: u8) = a mod 256"
  by (simp add: unsigned_ucast_eq unsigned_of_nat take_bit_eq_mod mod_mod_cancel)

text \<open>The same device with a log of the read requests (the cell and the length) it gets.\<close>

definition logged :: "'d smbus \<Rightarrow> ('d \<times> (u8 \<times> u8) list) smbus" where
  "logged sm =
     \<lparr>sm_read = \<lambda>(d, l) c n. (case sm_read sm d c n of (r, d) \<Rightarrow> (r, (d, l @ [(c, n)]))),
      sm_write = \<lambda>(d, l) c b. (case sm_write sm d c b of (r, d) \<Rightarrow> (r, (d, l)))\<rparr>"

text \<open>
  A request of a read that ends before address \<open>e\<close>: it stays inside the page of \<open>p\<close> bytes where it begins, and
  reaches the end of the page or the end of the read.
\<close>

definition page_request :: "nat \<Rightarrow> nat \<Rightarrow> u8 \<times> u8 \<Rightarrow> bool" where
  "page_request p e = (\<lambda>(c, n). 0 < unat n \<and> unat c mod p + unat n \<le> p \<and>
     (unat c mod p + unat n = p \<or> (unat c + unat n) mod 256 = e mod 256))"

lemma page_request_chunk:
  assumes p: "p dvd 256" "0 < p" "p < 256" and k: "k < N"
  shows "page_request p (a + N)
    (ucast (of_nat (a + k) :: u32), ucast (of_nat (min (p - (a + k) mod p) (N - k)) :: u32))"
proof -
  let ?m = "min (p - (a + k) mod p) (N - k)"
  have lt: "(a + k) mod p < p" using p(2) by simp
  then have m: "0 < ?m" "?m < 256" using p k by auto
  have c: "(a + k) mod 256 mod p = (a + k) mod p" using p(1) by (rule mod_mod_cancel)
  have "((a + k) mod 256 + (N - k)) mod 256 = (a + N) mod 256"
    using mod_add_left_eq [of "a + k" 256 "N - k"] k by (simp add: add.assoc)
  then show ?thesis
    using m lt by (auto simp: page_request_def u8_command c min_def simp del: of_nat_add)
qed

lemma reads_okD:
  assumes "reads_ok sm cells idle" "idle d" "0 < len"
  shows "\<exists>n d'. 0 < n \<and> n \<le> unat len \<and> cells d' = cells d \<and> idle d' \<and>
    sm_read sm d command len = ((int n, bytes_at (cells d) (unat command) n), d')"
  using assms unfolding reads_ok_def by meson

text \<open>A request that the device answers at once: no retry, the bytes are in the buffer.\<close>

lemma read_retry_ok:
  assumes dev: "reads_ok sm cells idle" "idle d" and len: "0 < m" "m < 256" "m \<le> length tmp"
  shows "\<exists>n d'. 0 < n \<and> n \<le> m \<and> cells d' = cells d \<and> idle d' \<and>
    read_retry k sm d (of_nat a) (of_nat m) tmp =
      Inr (of_nat n, d', overwrite tmp 0 (bytes_at (cells d) a n)) \<and>
    read_retry k (logged sm) (d, l) (of_nat a) (of_nat m) tmp =
      Inr (of_nat n, (d', l @ [(ucast (of_nat a :: u32), ucast (of_nat m :: u32))]),
        overwrite tmp 0 (bytes_at (cells d) a n))"
proof -
  have m8: "unat (ucast (of_nat m :: u32) :: u8) = m" using len(2) by (simp add: u8_command)
  then have pos: "0 < (ucast (of_nat m :: u32) :: u8)" using len(1) by (simp add: word_less_nat_alt)
  obtain n d' where n: "0 < n" "n \<le> m" "cells d' = cells d" "idle d'"
      "sm_read sm d (ucast (of_nat a :: u32)) (ucast (of_nat m :: u32)) = ((int n, bytes_at (cells d) a n), d')"
    using reads_okD [OF dev pos, of "ucast (of_nat a :: u32)"] by (auto simp: m8 u8_command bytes_at_mod)
  have "(of_nat n :: u32) \<noteq> 0"
    using n(1,2) len(2) unat_of_nat_u32 [of n] by auto
  then have "read_retry k sm d (of_nat a) (of_nat m) tmp =
      Inr (of_nat n, d', overwrite tmp 0 (bytes_at (cells d) a n)) \<and>
    read_retry k (logged sm) (d, l) (of_nat a) (of_nat m) tmp =
      Inr (of_nat n, (d', l @ [(ucast (of_nat a :: u32), ucast (of_nat m :: u32))]),
        overwrite tmp 0 (bytes_at (cells d) a n))"
    using n len(3) by (cases k) (simp_all add: read_once_def store_def logged_def)
  with n show ?thesis by blast
qed

text \<open>
  The loop with \<open>k\<close> bytes done: by induction on the fuel. The first \<open>k\<close> bytes of the user's
  buffer already hold what they should.
\<close>

lemma read_loop_ok:
  assumes dev: "reads_ok sm cells idle" and user: "\<forall>off n. off + n \<le> N \<longrightarrow> uncopied off n = 0"
    and p: "0 < p" "p < 256" and pos: "a + N + p < 2 ^ 31"
  shows "k \<le> N \<Longrightarrow> N - k < fuel \<Longrightarrow> length tmp = p \<Longrightarrow> length ubuf = N \<Longrightarrow> idle d \<or> k = N \<Longrightarrow>
    take k ubuf = bytes_at (cells d) a k \<Longrightarrow>
    \<exists>d' l'. read_loop fuel sm uncopied (int p) (int a) (of_nat N) (of_nat k) d tmp ubuf =
      Inr (int N, d', bytes_at (cells d) a N) \<and> cells d' = cells d \<and>
    read_loop fuel (logged sm) uncopied (int p) (int a) (of_nat N) (of_nat k) (d, l) tmp ubuf =
      Inr (int N, (d', l @ l'), bytes_at (cells d) a N) \<and>
    (p dvd 256 \<longrightarrow> list_all (page_request p (a + N)) l')"
proof (induction fuel arbitrary: k d l tmp ubuf)
  case (Suc fuel)
  have bounds: "N < 2 ^ 31" "k < 2 ^ 31" using pos Suc.prems(1) by simp_all
  have sint_k: "sint (of_nat k :: u32) = int k" using bounds(2) by (rule sint_of_nat_u32)
  show ?case
  proof (cases "k < N")
    case False
    then have "\<not> (of_nat k :: u32) < of_nat N" using Suc.prems(1) by simp
    then show ?thesis using False Suc.prems sint_k by simp
  next
    case True
    then have lt: "(of_nat k :: u32) < of_nat N"
      using bounds by (simp add: word_less_nat_alt unat_of_nat_u32)
    let ?m = "min (p - (a + k) mod p) (N - k)"
    let ?req = "(ucast (of_nat (a + k) :: u32) :: u8, ucast (of_nat ?m :: u32) :: u8)"
    have m: "0 < ?m" "?m < 256" "?m \<le> length tmp" using p True Suc.prems(3) by auto
    have addr: "word_of_int (int a + sint (of_nat k :: u32)) = (of_nat (a + k) :: u32)"
      unfolding sint_k by (simp flip: of_nat_add)
    have len: "chunk_len (int p) (of_nat (a + k)) (of_nat k) (of_nat N) = of_nat ?m"
      by (rule chunk_len_page) (use p pos True in simp_all)
    have "idle d" using Suc.prems(5) True by simp
    then obtain n d' where n: "0 < n" "n \<le> ?m" "cells d' = cells d" "idle d'" and
      rd: "read_retry 5 sm d (of_nat (a + k)) (of_nat ?m) tmp =
        Inr (of_nat n, d', overwrite tmp 0 (bytes_at (cells d) (a + k) n))"
        "read_retry 5 (logged sm) (d, l) (of_nat (a + k)) (of_nat ?m) tmp =
        Inr (of_nat n, (d', l @ [?req]), overwrite tmp 0 (bytes_at (cells d) (a + k) n))"
      using read_retry_ok [OF dev _ m] by blast
    let ?bs = "bytes_at (cells d) (a + k) n"
    have n': "n \<le> p" "k + n \<le> N" "n < 256" using n(2) p(2) True by auto
    have ne: "\<not> (of_nat n :: u32) \<le> 0" using n(1) n'(3) unat_of_nat_u32 [of n] by auto
    have copy: "copy_to_user uncopied ubuf (unat (of_nat k :: u32)) (overwrite tmp 0 ?bs) (unat (of_nat n :: u32)) =
        Inr (0, overwrite ubuf k ?bs)"
      using copy_to_user_all [of uncopied k n "overwrite tmp 0 ?bs" ubuf] user n' bounds Suc.prems(3,4)
      by (simp add: unat_of_nat_u32 overwrite_def)
    have taken: "take (k + n) (overwrite ubuf k ?bs) = bytes_at (cells d) a (k + n)"
      using take_overwrite [of k ?bs ubuf] n'(2) Suc.prems(4,6) by (simp add: bytes_at_append)
    have fuel: "N - (k + n) < fuel" using n(1) n'(2) Suc.prems(2) by simp
    have lens: "length (overwrite tmp 0 ?bs) = p" "length (overwrite ubuf k ?bs) = N"
      using n' Suc.prems(3,4) by simp_all
    obtain e l' where e: "read_loop fuel sm uncopied (int p) (int a) (of_nat N) (of_nat (k + n)) d'
          (overwrite tmp 0 ?bs) (overwrite ubuf k ?bs) = Inr (int N, e, bytes_at (cells d) a N)" "cells e = cells d"
        "read_loop fuel (logged sm) uncopied (int p) (int a) (of_nat N) (of_nat (k + n)) (d', l @ [?req])
          (overwrite tmp 0 ?bs) (overwrite ubuf k ?bs) = Inr (int N, (e, (l @ [?req]) @ l'), bytes_at (cells d) a N)"
        "p dvd 256 \<longrightarrow> list_all (page_request p (a + N)) l'"
      using Suc.IH [OF n'(2) fuel lens, of d' "l @ [?req]"] n(3,4) taken by auto
    have "p dvd 256 \<longrightarrow> list_all (page_request p (a + N)) (?req # l')"
      using e(4) page_request_chunk [OF _ p True, of a] by simp
    moreover have "read_loop (Suc fuel) sm uncopied (int p) (int a) (of_nat N) (of_nat k) d tmp ubuf =
        Inr (int N, e, bytes_at (cells d) a N)"
      "read_loop (Suc fuel) (logged sm) uncopied (int p) (int a) (of_nat N) (of_nat k) (d, l) tmp ubuf =
        Inr (int N, (e, l @ ?req # l'), bytes_at (cells d) a N)"
      using lt addr len rd ne copy e(1,3) by (simp_all add: Let_def)
    ultimately show ?thesis using e(2) by blast
  qed
qed simp

lemma read_delivers:
  assumes dev: "reads_ok sm cells idle" "idle d \<or> N = 0" and user: "\<forall>off n. off + n \<le> N \<longrightarrow> uncopied off n = 0"
    and page: "0 < unat (page_size chip)" "unat (page_size chip) < 256" "length tmp = unat (page_size chip)"
    and pos: "a < unat (byte_len chip)" "a + N + unat (page_size chip) < 2 ^ 31"
    and buf: "length ubuf = N" "N < fuel"
  shows "\<exists>d' l. at24_read fuel sm uncopied (Some tmp) chip ubuf (of_nat N) (int a) d =
      Inr (int N, d', bytes_at (cells d) a N, int (a + N)) \<and> cells d' = cells d \<and>
    at24_read fuel (logged sm) uncopied (Some tmp) chip ubuf (of_nat N) (int a) (d, []) =
      Inr (int N, (d', l), bytes_at (cells d) a N, int (a + N)) \<and>
    (unat (page_size chip) dvd 256 \<longrightarrow> list_all (page_request (unat (page_size chip)) (a + N)) l)"
proof -
  obtain d' l where "read_loop fuel sm uncopied (int (unat (page_size chip))) (int a) (of_nat N) (of_nat 0) d tmp ubuf =
      Inr (int N, d', bytes_at (cells d) a N)" "cells d' = cells d"
      "read_loop fuel (logged sm) uncopied (int (unat (page_size chip))) (int a) (of_nat N) (of_nat 0) (d, []) tmp ubuf =
      Inr (int N, (d', [] @ l), bytes_at (cells d) a N)"
      "unat (page_size chip) dvd 256 \<longrightarrow> list_all (page_request (unat (page_size chip)) (a + N)) l"
    using read_loop_ok [where k = 0 and fuel = fuel and tmp = tmp and ubuf = ubuf and d = d and l = "[]",
        OF dev(1) user page(1,2) pos(2)] page(3) buf dev(2)
    by (auto simp: bytes_at_def)
  then show ?thesis using pos(1) page(1) by (simp add: at24_read_def del: of_nat_unat)
qed

text \<open>C10: Reading \<open>N\<close> bytes from a position inside the EEPROM, when the device is ready, delivers the cells from
  there on, returns \<open>N\<close> and advances the position. If the page size divides the device, every request stays
  inside one page and reaches its end or the end of the read: the requests are those of the log of the same read on
  the same device with a log. \<open>N\<close> + 1 rounds of the loop are enough. Past the last cell the address
  wraps around: the end of the device does not bound a read.\<close>
theorem at24_read_delivers:
  assumes dev: "reads_ok sm cells idle" "idle d" and user: "\<forall>off n. off + n \<le> N \<longrightarrow> uncopied off n = 0"
    and page: "0 < unat (page_size chip)" "unat (page_size chip) < 256" "length tmp = unat (page_size chip)"
    and pos: "a < unat (byte_len chip)" "a + N + unat (page_size chip) < 2 ^ 31"
    and buf: "length ubuf = N" "N < fuel"
  shows "\<exists>d' requests. at24_read fuel sm uncopied (Some tmp) chip ubuf (of_nat N) (int a) d =
      Inr (int N, d', bytes_at (cells d) a N, int (a + N)) \<and> cells d' = cells d \<and>
    at24_read fuel (logged sm) uncopied (Some tmp) chip ubuf (of_nat N) (int a) (d, []) =
      Inr (int N, (d', requests), bytes_at (cells d) a N, int (a + N)) \<and>
    (unat (page_size chip) dvd 256 \<longrightarrow> list_all (page_request (unat (page_size chip)) (a + N)) requests)"
  by (rule read_delivers [OF dev(1) _ user page pos buf]) (use dev(2) in simp)

text \<open>A device that answers with up to 32 bytes, cell \<open>j\<close> holding \<open>j\<close>, in a buffer of the page size.\<close>

definition rom :: "unit smbus" where
  "rom = \<lparr>sm_read = \<lambda>d command len. ((int (min 32 (unat len)),
       bytes_at (map of_nat [0..<256]) (unat command) (min 32 (unat len))), d),
     sm_write = \<lambda>d command b. (- EIO, d)\<rparr>"

definition chip_24c02 :: at24_chip where
  "chip_24c02 = \<lparr>byte_len = 256, page_size = 8, flags = 0\<rparr>"

lemma rom_reads: "reads_ok rom (\<lambda>_. map of_nat [0..<256]) (\<lambda>_. True)"
proof -
  have "min 32 (unat len) \<noteq> 0" if "0 < len" for len :: u8
    using that by (simp add: word_less_nat_alt)
  then show ?thesis by (auto simp: reads_ok_def rom_def intro!: exI [of _ "min 32 (unat _)"])
qed

theorem at24_read_delivers_witness:
  "at24_read 8 rom (\<lambda>_ _. 0) (Some (replicate 8 0)) chip_24c02 (replicate 5 0) 5 253 () =
     Inr (5, (), [253, 254, 255, 0, 1], 258) \<and>
   (\<exists>requests. at24_read 8 (logged rom) (\<lambda>_ _. 0) (Some (replicate 8 0)) chip_24c02 (replicate 5 0) 5 253 ((), []) =
     Inr (5, ((), requests), [253, 254, 255, 0, 1], 258) \<and> list_all (page_request 8 258) requests)"
proof -
  have "[0..<5] = [0, 1, 2, 3, 4 :: nat]" by (simp add: upt_conv_Cons)
  then have bytes: "bytes_at (map of_nat [0..<256]) 253 5 = [253, 254, 255, 0, 1]"
    by (simp add: bytes_at_def)
  have "\<exists>d' requests. at24_read 8 rom (\<lambda>_ _. 0) (Some (replicate 8 0)) chip_24c02 (replicate 5 0) (of_nat 5) (int 253) () =
      Inr (int 5, d', bytes_at (map of_nat [0..<256]) 253 5, int (253 + 5)) \<and>
      map of_nat [0..<256] = (map of_nat [0..<256] :: u8 list) \<and>
    at24_read 8 (logged rom) (\<lambda>_ _. 0) (Some (replicate 8 0)) chip_24c02 (replicate 5 0) (of_nat 5) (int 253) ((), []) =
      Inr (int 5, (d', requests), bytes_at (map of_nat [0..<256]) 253 5, int (253 + 5)) \<and>
    (unat (page_size chip_24c02) dvd 256 \<longrightarrow>
      list_all (page_request (unat (page_size chip_24c02)) (253 + 5)) requests)"
    by (rule at24_read_delivers [OF rom_reads]) (simp_all add: chip_24c02_def)
  moreover have "unat (page_size chip_24c02) = 8" by (simp add: chip_24c02_def)
  ultimately show ?thesis unfolding bytes by auto
qed

section \<open>When a read fails\<close>

text \<open>A negative result as an unsigned length.\<close>

lemma unat_errno:
  assumes "- 4096 < r" "r < 0"
  shows "unat (word_of_int r :: u32) = nat (2 ^ 32 + r)" "\<not> (word_of_int r :: u32) \<le> 0"
proof -
  have "r mod 2 ^ 32 = 2 ^ 32 + r"
    using assms mod_pos_pos_trivial [of "2 ^ 32 + r" "2 ^ 32"] by simp
  then show u: "unat (word_of_int r :: u32) = nat (2 ^ 32 + r)" by (simp add: unsigned_of_int take_bit_eq_mod)
  have "0 < nat (2 ^ 32 + r)" using assms by simp
  then show "\<not> (word_of_int r :: u32) \<le> 0" using u by (metis less_not_refl unat_0 word_le_0_iff)
qed

lemma read_retry_error:
  assumes "- 4096 < r" "r < 0" "length bytes \<le> length tmp"
    and "sm_read sm d (ucast a) (ucast l) = ((r, bytes), d')"
  shows "read_retry k sm d a l tmp = Inr (word_of_int r, d', overwrite tmp 0 bytes)"
  using assms unat_errno(2) [of r] by (cases k) (simp_all add: read_once_def store_def)

text \<open>Asked for more than the kernel buffer holds, the copy cannot succeed.\<close>

lemma copy_too_much:
  assumes "length kbuf < n"
  shows "copy_to_user uncopied ubuf off kbuf n = Inl OutOfBounds \<or>
    (\<exists>ret ubuf'. copy_to_user uncopied ubuf off kbuf n = Inr (ret, ubuf') \<and> ret \<noteq> 0)"
  using assms by (cases "uncopied off n = 0") (auto simp: copy_to_user_def load_def store_def)

text \<open>A read from a device that is not ready: the first request fails, and no other is made.\<close>

lemma read_busy:
  assumes dev: "reads_ok sm cells idle" "\<not> idle d" and N: "0 < N"
    and page: "0 < unat (page_size chip)" "unat (page_size chip) < 256" "length tmp = unat (page_size chip)"
    and pos: "a < unat (byte_len chip)" "a + N + unat (page_size chip) < 2 ^ 31"
  shows "at24_read (Suc rounds) sm uncopied (Some tmp) chip ubuf (of_nat N) (int a) d = Inl OutOfBounds \<or>
    (\<exists>d' ubuf'. at24_read (Suc rounds) sm uncopied (Some tmp) chip ubuf (of_nat N) (int a) d =
       Inr (- EFAULT, d', ubuf', int a) \<and> cells d' = cells d)"
proof -
  let ?p = "unat (page_size chip)"
  let ?m = "min (?p - (a + 0) mod ?p) (N - 0)"
  have m: "0 < ?m" "?m < 256" "?m \<le> length tmp" using page N by auto
  have len: "chunk_len (int ?p) (of_nat (a + 0)) (of_nat 0) (of_nat N) = of_nat ?m"
    by (rule chunk_len_page) (use page pos N in simp_all)
  let ?len = "ucast (of_nat ?m :: u32) :: u8"
  have m8: "unat ?len = ?m" using m(2) by (rule trans [OF u8_command mod_less])
  then have "0 < ?len" using m(1) by (simp add: word_less_nat_alt)
  then obtain r bytes d' where d': "- 4096 < r" "r < 0" "length bytes \<le> ?m" "cells d' = cells d"
      "sm_read sm d (ucast (of_nat a :: u32)) ?len = ((r, bytes), d')"
    using dev(1) [unfolded reads_ok_def, rule_format, of ?len d "ucast (of_nat a :: u32)"]
    unfolding m8 if_not_P [OF dev(2)] by blast
  let ?tmp = "overwrite tmp 0 bytes" and ?n = "nat (2 ^ 32 + r)"
  have rd: "read_retry 5 sm d (of_nat a) (of_nat ?m) tmp = Inr (word_of_int r, d', ?tmp)"
    by (rule read_retry_error [OF d'(1,2) _ d'(5)]) (use d'(3) m(3) in linarith)
  have "0 + length bytes \<le> length tmp" using d'(3) m(3) by linarith
  then have "length ?tmp = length tmp" by (rule length_overwrite)
  then have "length ?tmp < ?n" using d'(1,2) page(2,3) by simp
  note copy = copy_too_much [OF this, of uncopied ubuf 0]
  have lt: "(0 :: u32) < of_nat N" using N pos(2) by (simp add: word_less_nat_alt unat_of_nat_u32)
  have "read_loop (Suc rounds) sm uncopied (int ?p) (int a) (of_nat N) 0 d tmp ubuf =
      ebind (copy_to_user uncopied ubuf 0 ?tmp ?n) (\<lambda>(ret, ubuf).
        if ret \<noteq> 0 then Inr (- EFAULT, d', ubuf)
        else read_loop rounds sm uncopied (int ?p) (int a) (of_nat N) (0 + word_of_int r) d' ?tmp ubuf)"
    using lt len rd unat_errno [OF d'(1,2)] by (simp add: Let_def del: of_nat_unat)
  then show ?thesis
    using copy pos(1) page(1) d'(4) by (auto simp: at24_read_def simp del: of_nat_unat read_loop.simps)
qed

text \<open>C34: A negative result of the SMBus read is never retried. Stored in the unsigned \<open>len\<close> it is a
  length of almost 4 GB, so the branch for failures is not taken, and the copy to the user is
  asked for that many bytes of the page buffer: the call ends in \<open>-EFAULT\<close> if the copy refuses, and
  otherwise reads past the buffer. The device is asked once.\<close>
theorem at24_read_error_not_retried:
  assumes dev: "\<And>d command len. sm_read sm d command len = ((r, []), Suc d)" and r: "- 4096 < r" "r < 0"
    and page: "0 < unat (page_size chip)" "length tmp = unat (page_size chip)"
    and pos: "f_pos < int (unat (byte_len chip))" "0 < cnt"
    and whole: "uncopied 0 (nat (2 ^ 32 + r)) = 0 \<or> uncopied 0 (nat (2 ^ 32 + r)) = nat (2 ^ 32 + r)"
  shows "at24_read (Suc fuel) sm uncopied (Some tmp) chip ubuf cnt f_pos 0 =
    (if uncopied 0 (nat (2 ^ 32 + r)) = 0 then Inl OutOfBounds
     else Inr (- EFAULT, Suc 0, ubuf, f_pos))"
proof -
  let ?psize = "int (unat (page_size chip))"
  note u = unat_errno [OF r]
  have pos_n: "0 < nat (2 ^ 32 + r)" using r by simp
  have big: "length tmp < nat (2 ^ 32 + r)"
  proof -
    have "unat (page_size chip) < 2 ^ 16" by (rule less_le_trans [OF unsigned_less]) simp
    then show ?thesis using page(2) r by simp
  qed
  have rd: "read_retry 5 sm 0 a l tmp = Inr (word_of_int r, Suc 0, tmp)" for a l
    using u(2) by (simp add: numeral_eq_Suc read_once_def dev store_def)
  have copy: "copy_to_user uncopied ubuf 0 tmp (nat (2 ^ 32 + r)) =
      (if uncopied 0 (nat (2 ^ 32 + r)) = 0 then Inl OutOfBounds else Inr (nat (2 ^ 32 + r), ubuf))"
    using whole big by (auto simp: copy_to_user_def load_def store_def)
  show ?thesis
    using pos page(1) u copy pos_n by (simp add: at24_read_def rd Let_def del: of_nat_unat)
qed

theorem at24_read_error_not_retried_witness:
  "at24_read 3 \<lparr>sm_read = \<lambda>d _ _. ((- EREMOTEIO, []), Suc d), sm_write = \<lambda>d _ _. (0, d)\<rparr> (\<lambda>_ n. n)
     (Some (replicate 8 0)) chip_24c02 (replicate 5 0) 5 0 0 = Inr (- EFAULT, 1, replicate 5 0, 0)"
  using at24_read_error_not_retried
    [of "\<lparr>sm_read = \<lambda>d _ _. ((- EREMOTEIO, []), Suc d), sm_write = \<lambda>d _ _. (0, d)\<rparr>" "- EREMOTEIO"
      chip_24c02 "replicate 8 0" 0 5 "\<lambda>_ n. n" 2 "replicate 5 0"]
  by (simp add: chip_24c02_def)


section \<open>Writing\<close>

text \<open>The cells after \<open>n\<close> bytes of the user were stored from address \<open>a\<close> on.\<close>

primrec written :: "u8 list \<Rightarrow> (nat \<Rightarrow> u8 option) \<Rightarrow> nat \<Rightarrow> nat \<Rightarrow> u8 list" where
  "written mem user a 0 = mem"
| "written mem user a (Suc n) = (written mem user a n)[(a + n) mod 256 := the (user n)]"

lemma write_retry_cells:
  "writes_ok sm cells \<Longrightarrow> write_retry k sm d command b = (ret, d') \<Longrightarrow>
    cells d' = (if ret < 0 then cells d else (cells d)[unat command := b])"
proof (induction k arbitrary: d)
  case 0
  then show ?case by (auto simp: writes_ok_def split: prod.splits)
next
  case (Suc k)
  obtain r e where e: "sm_write sm d command b = (r, e)" by (cases "sm_write sm d command b")
  then have "cells e = (if r < 0 then cells d else (cells d)[unat command := b])"
    using Suc.prems(1) by (auto simp: writes_ok_def split: prod.splits)
  then show ?case
    using Suc e by (cases "r < 0") auto
qed

lemma u8_write_command:
  "k < 2 ^ 31 \<Longrightarrow> unat (word_of_int (int a + sint (of_nat k :: u32)) :: u8) = (a + k) mod 256"
proof -
  assume "k < 2 ^ 31"
  then have "(word_of_int (int a + sint (of_nat k :: u32)) :: u8) = of_nat (a + k)"
    by (simp add: sint_of_nat_u32)
  then show ?thesis by (simp add: unsigned_of_nat take_bit_eq_mod del: of_nat_add)
qed

text \<open>How a run of the loop from byte \<open>k\<close> on ends: with \<open>j\<close> bytes in the device.\<close>

lemma write_loop_result:
  assumes dev: "writes_ok sm cells" and N: "N < 2 ^ 31"
  shows "k \<le> N \<Longrightarrow> cells d = written mem user a k \<Longrightarrow>
    \<exists>j ret d'. write_loop sm user (int a) (of_nat N) (of_nat k) d = (ret, of_nat j, d') \<and>
      k \<le> j \<and> j \<le> N \<and> cells d' = written mem user a j \<and> (\<forall>i. k \<le> i \<longrightarrow> i < j \<longrightarrow> user i \<noteq> None) \<and>
      (if j = N then ret = int N else ret < 0)"
proof (induction "N - k" arbitrary: k d)
  case 0
  then have "k = N" by simp
  then show ?case
    using 0 N by (intro exI [of _ N]) (simp add: write_loop.simps [of _ _ _ "of_nat N" "of_nat N"] sint_of_nat_u32)
next
  case (Suc m)
  have k: "k < N" "k < 2 ^ 31" using Suc.hyps(2) N by simp_all
  then have lt: "(of_nat k :: u32) < of_nat N" "unat (of_nat k :: u32) = k"
    using N by (simp_all add: word_less_nat_alt unat_of_nat_u32)
  note unf = write_loop.simps [of sm user "int a" "of_nat N" "of_nat k" d]
  show ?case
  proof (cases "user k")
    case None
    then show ?thesis
      using unf lt k Suc.prems(2) by (intro exI [of _ k]) auto
  next
    case (Some b)
    let ?c = "word_of_int (int a + sint (of_nat k :: u32)) :: u8"
    obtain r e where e: "write_retry 5 sm d ?c b = (r, e)" by (cases "write_retry 5 sm d ?c b")
    have cells: "cells e = (if r < 0 then cells d else (cells d)[(a + k) mod 256 := b])"
      using write_retry_cells [OF dev e] u8_write_command [OF k(2)] by simp
    show ?thesis
    proof (cases "r < 0")
      case True
      then show ?thesis
        using unf lt k Some e cells Suc.prems(2) by (intro exI [of _ k]) auto
    next
      case False
      have m: "m = N - Suc k" using Suc.hyps(2) by simp
      have "cells e = written mem user a (Suc k)" using False cells Some Suc.prems(2) by simp
      then obtain j ret d' where j: "write_loop sm user (int a) (of_nat N) (of_nat (Suc k)) e = (ret, of_nat j, d')"
          "Suc k \<le> j" "j \<le> N" "cells d' = written mem user a j"
          "\<forall>i. Suc k \<le> i \<longrightarrow> i < j \<longrightarrow> user i \<noteq> None" "if j = N then ret = int N else ret < 0"
        using Suc.hyps(1) [of "Suc k" e] m k(1) by auto
      have "write_loop sm user (int a) (of_nat N) (of_nat k) d = (ret, of_nat j, d')"
        using unf lt Some e False j(1) by (simp add: add.commute)
      moreover have "\<forall>i. k \<le> i \<longrightarrow> i < j \<longrightarrow> user i \<noteq> None"
        using j(5) Some by (metis Suc_leI le_neq_implies_less option.distinct(1))
      ultimately show ?thesis using j by (intro exI [of _ j]) auto
    qed
  qed
qed

lemma write_result:
  assumes dev: "writes_ok sm cells" and "N < 2 ^ 31" and "at24_write sm user (of_nat N) (int a) d = (ret, d', pos)"
  shows "ret = int N \<and> pos = int (a + N) \<and> cells d' = written (cells d) user a N \<or>
    ret < 0 \<and> pos = int a \<and> (\<exists>j < N. cells d' = written (cells d) user a j)"
proof -
  obtain j r e where j: "write_loop sm user (int a) (of_nat N) (of_nat 0) d = (r, of_nat j, e)" "j \<le> N"
      "cells e = written (cells d) user a j" "if j = N then r = int N else r < 0"
    using write_loop_result [where k = 0 and d = d and mem = "cells d" and user = user and a = a, OF dev assms(2)]
    by auto
  have lt: "(of_nat j :: u32) < of_nat N \<longleftrightarrow> j < N" and "sint (of_nat j :: u32) = int j"
    using j(2) assms(2) by (simp_all add: word_less_nat_alt unat_of_nat_u32 sint_of_nat_u32)
  then have res: "ret = r" "d' = e" "pos = (if j < N then int a else int a + int j)"
    using assms(3) j(1) by (auto simp: at24_write_def split: if_splits)
  show ?thesis
  proof (cases "j = N")
    case True
    then show ?thesis using res j(3,4) by simp
  next
    case False
    then have "j < N" using j(2) by simp
    then show ?thesis using res j(3,4) by auto
  qed
qed

text \<open>C22: A write ends on one of two branches. All \<open>N\<close> bytes are in the device, the result is \<open>N\<close>
  and the position advances; or some byte could not be fetched or was refused six times,
  the result is negative and the position stays, although the bytes before it are in the device
  already. Every byte goes to its address modulo 256: nothing stops a write at the end of the
  device.\<close>
theorem at24_write_result:
  assumes dev: "writes_ok sm cells" and "N < 2 ^ 31" and "at24_write sm user (of_nat N) (int a) d = (ret, d', pos)"
  shows "ret = int N \<and> pos = int (a + N) \<and> cells d' = written (cells d) user a N \<or>
    ret < 0 \<and> pos = int a \<and> (\<exists>j < N. cells d' = written (cells d) user a j)"
  using assms by (rule write_result)

text \<open>A device whose cell takes the byte, except that it refuses the bytes 3 and 7.\<close>

definition picky :: "u8 list smbus" where
  "picky = \<lparr>sm_read = \<lambda>d command len. ((int (unat len), bytes_at d (unat command) (unat len)), d),
     sm_write = \<lambda>d command b. if b = 3 \<or> b = 7 then (- EIO, d) else (0, d[unat command := b])\<rparr>"

lemma picky_writes: "writes_ok picky (\<lambda>d. d)"
  by (auto simp: writes_ok_def picky_def)

theorem at24_write_result_witness:
  "\<exists>ret d' pos. at24_write picky (\<lambda>k. Some (of_nat k)) (of_nat 5) (int 255) (replicate 256 9) = (ret, d', pos) \<and>
     (ret = 5 \<or> ret < 0 \<and> pos = 255)"
proof -
  obtain ret d' pos where w: "at24_write picky (\<lambda>k. Some (of_nat k)) (of_nat 5) (int 255) (replicate 256 9) =
      (ret, d', pos)"
    by (cases "at24_write picky (\<lambda>k. Some (of_nat k)) (of_nat 5) (int 255) (replicate 256 9)") auto
  from at24_write_result [OF picky_writes _ w] show ?thesis using w by auto
qed

section \<open>What was written can be read\<close>

text \<open>
  Without the wrap-around the cells after a write are the old ones with the user's bytes put
  over them.
\<close>

lemma written_overwrite:
  "a + n \<le> 256 \<Longrightarrow> length mem = 256 \<Longrightarrow> written mem user a n = overwrite mem a (map (\<lambda>k. the (user k)) [0..<n])"
proof (induction n)
  case (Suc n)
  then have IH: "written mem user a n = overwrite mem a (map (\<lambda>k. the (user k)) [0..<n])" by simp
  have "(overwrite mem a xs)[a + length xs := x] = overwrite mem a (xs @ [x])"
    if "a + length xs < length mem" for xs :: "u8 list" and x
    using that by (simp add: overwrite_def list_update_append Cons_nth_drop_Suc [symmetric])
  from this [of "map (\<lambda>k. the (user k)) [0..<n]"] show ?case
    using IH Suc.prems by simp
qed simp

lemma bytes_at_overwrite:
  "a + length bs \<le> 256 \<Longrightarrow> length mem = 256 \<Longrightarrow> bytes_at (overwrite mem a bs) a (length bs) = bs"
  by (rule nth_equalityI) (auto simp: nth_overwrite)


text \<open>C5: What a successful write inside the 256 cells stored is read back, if the device is ready: a read of the same
  length from the same position delivers the user's bytes. A device still completing the
  write fails the read, and then nothing is retried: the call ends in \<open>-EFAULT\<close> with the position unchanged, or reads
  past its page buffer. Either way the cells keep the bytes.\<close>
theorem at24_roundtrip:
  assumes dev: "writes_ok sm cells" "reads_ok sm cells idle" and cells: "length (cells d) = 256"
    and wr: "at24_write sm user (of_nat N) (int a) d = (int N, d', pos)" and a: "a + N \<le> 256"
    and rd: "\<forall>off n. off + n \<le> N \<longrightarrow> uncopied off n = 0" "a < unat (byte_len chip)"
      "0 < unat (page_size chip)" "unat (page_size chip) < 256" "length tmp = unat (page_size chip)"
      "length ubuf = N" "N < fuel"
  shows "bytes_at (cells d') a N = map (\<lambda>k. the (user k)) [0..<N] \<and>
    (if idle d' \<or> N = 0 then
       \<exists>d''. at24_read fuel sm uncopied (Some tmp) chip ubuf (of_nat N) (int a) d' =
         Inr (int N, d'', map (\<lambda>k. the (user k)) [0..<N], int (a + N)) \<and> cells d'' = cells d'
     else
       at24_read fuel sm uncopied (Some tmp) chip ubuf (of_nat N) (int a) d' = Inl OutOfBounds \<or>
       (\<exists>d'' ubuf'. at24_read fuel sm uncopied (Some tmp) chip ubuf (of_nat N) (int a) d' =
         Inr (- EFAULT, d'', ubuf', int a) \<and> cells d'' = cells d'))"
proof -
  let ?bs = "map (\<lambda>k. the (user k)) [0..<N]"
  have "cells d' = written (cells d) user a N"
    using write_result [OF dev(1) _ wr] a by simp
  then have "cells d' = overwrite (cells d) a ?bs" using written_overwrite [OF a cells] by simp
  moreover have "bytes_at (overwrite (cells d) a ?bs) a N = ?bs"
    using bytes_at_overwrite [of a ?bs "cells d"] a cells by simp
  ultimately have bytes: "bytes_at (cells d') a N = ?bs" by simp
  have pos: "a + N + unat (page_size chip) < 2 ^ 31" using a rd(4) by simp
  show ?thesis
  proof (cases "idle d' \<or> N = 0")
    case True
    then show ?thesis using read_delivers [OF dev(2) True rd(1,3,4,5,2) pos rd(6,7)] bytes by auto
  next
    case False
    obtain r where "fuel = Suc r" using rd(7) by (cases fuel) auto
    then show ?thesis using read_busy [OF dev(2) _ _ rd(3-5,2) pos, of d' r uncopied ubuf] bytes False by simp
  qed
qed

lemma picky_takes:
  "\<exists>d'. at24_write picky (\<lambda>_. Some 5) (of_nat 2) (int 100) (replicate 256 9) = (int 2, d', 102)"
  by (simp add: at24_write_def write_loop.simps [of _ _ _ 2] write_loop.simps [of _ _ _ 2 "0 + 1"]
      write_loop.simps [of _ _ _ 2 "0 + 1 + 1"] picky_def eval_nat_numeral)

text \<open>A device that misses the access after every write, as long as it completes it.\<close>

definition slow :: "(u8 list \<times> bool) smbus" where
  "slow = \<lparr>sm_read = \<lambda>(m, busy) command len.
      if busy then ((- EREMOTEIO, []), (m, False))
      else ((int (unat len), bytes_at m (unat command) (unat len)), (m, False)),
    sm_write = \<lambda>(m, busy) command b.
      if busy then (- EREMOTEIO, (m, False)) else (0, (m[unat command := b], True))\<rparr>"

lemma slow_ok: "writes_ok slow fst" "reads_ok slow fst (\<lambda>d. \<not> snd d)"
proof -
  have "0 < unat len" if "0 < len" for len :: u8 using that by (simp add: word_less_nat_alt)
  then show "reads_ok slow fst (\<lambda>d. \<not> snd d)"
    by (auto simp: reads_ok_def slow_def split: prod.splits simp del: of_nat_unat intro!: exI [of _ "unat _"])
qed (auto simp: writes_ok_def slow_def split: prod.splits)

lemma slow_takes:
  "\<exists>m. at24_write slow (\<lambda>_. Some 5) (of_nat 2) (int 100) (replicate 256 9, False) = (int 2, (m, True), 102)"
  by (simp add: at24_write_def write_loop.simps [of _ _ _ 2] write_loop.simps [of _ _ _ 2 "0 + 1"]
      write_loop.simps [of _ _ _ 2 "0 + 1 + 1"] slow_def eval_nat_numeral)

theorem at24_roundtrip_witness:
  "\<exists>m. at24_write slow (\<lambda>_. Some 5) (of_nat 2) (int 100) (replicate 256 9, False) = (int 2, (m, True), 102) \<and>
     bytes_at m 100 2 = [5, 5] \<and>
     (at24_read 3 slow (\<lambda>_ _. 0) (Some (replicate 8 0)) chip_24c02 [0, 0] (of_nat 2) (int 100) (m, True) = Inl OutOfBounds \<or>
      (\<exists>d'' ubuf'. at24_read 3 slow (\<lambda>_ _. 0) (Some (replicate 8 0)) chip_24c02 [0, 0] (of_nat 2) (int 100) (m, True) =
        Inr (- EFAULT, d'', ubuf', int 100) \<and> fst d'' = m))"
proof -
  obtain m where w: "at24_write slow (\<lambda>_. Some 5) (of_nat 2) (int 100) (replicate 256 9, False) = (int 2, (m, True), 102)"
    using slow_takes by blast
  have "bytes_at (fst (m, True)) 100 2 = map (\<lambda>k. the (Some 5)) [0..<2] \<and>
    (if \<not> snd (m, True) \<or> (2 :: nat) = 0 then
       \<exists>d''. at24_read 3 slow (\<lambda>_ _. 0) (Some (replicate 8 0)) chip_24c02 [0, 0] (of_nat 2) (int 100) (m, True) =
         Inr (int 2, d'', map (\<lambda>k. the (Some 5)) [0..<2], int (100 + 2)) \<and> fst d'' = fst (m, True)
     else
       at24_read 3 slow (\<lambda>_ _. 0) (Some (replicate 8 0)) chip_24c02 [0, 0] (of_nat 2) (int 100) (m, True) = Inl OutOfBounds \<or>
       (\<exists>d'' ubuf'. at24_read 3 slow (\<lambda>_ _. 0) (Some (replicate 8 0)) chip_24c02 [0, 0] (of_nat 2) (int 100) (m, True) =
         Inr (- EFAULT, d'', ubuf', int 100) \<and> fst d'' = fst (m, True)))"
    by (rule at24_roundtrip [where idle = "\<lambda>d. \<not> snd d", OF slow_ok _ w]) (simp_all add: chip_24c02_def)
  then show ?thesis using w by (auto simp: upt_conv_Cons)
qed

end
