(* ===== verification/AT24_Pages.thy ===== *)
theory AT24_Pages
  imports AT24_Props
begin

text \<open>
  The page-wise \<open>at24_write\<close> of \<open>i2c/dev_drv/at24cxx_drv.c\<close>, compiled out by an \<open>#if 0\<close> in favour of the
  byte-wise one: the driver's faster version of a write, compared with the one in use.
\<close>

section \<open>The page-wise write\<close>

text \<open>
  \<open>i2c_smbus_write_i2c_block_data\<close>: a command, a length and a buffer; the first bytes of the buffer
  are sent.
\<close>

type_synonym 'd block_write = "'d \<Rightarrow> u8 \<Rightarrow> u8 \<Rightarrow> u8 list \<Rightarrow> int \<times> 'd"

text \<open>The label \<open>retry\<close>. \<open>left\<close> is 5 less \<open>err_count\<close>, which is never reset: the retries are those of the whole call.\<close>

primrec block_retry :: "nat \<Rightarrow> 'd block_write \<Rightarrow> 'd \<Rightarrow> u8 \<Rightarrow> u8 \<Rightarrow> u8 list \<Rightarrow> int \<times> nat \<times> 'd" where
  "block_retry 0 block d command len tmp = (let (ret, d) = block d command len tmp in (ret, 0, d))"
| "block_retry (Suc left) block d command len tmp =
     (let (ret, d) = block d command len tmp
      in if ret < 0 then block_retry left block d command len tmp else (ret, Suc left, d))"

text \<open>\<open>copy_from_user\<close> of \<open>n\<close> bytes at \<open>off\<close>: all of them, or a failure.\<close>

definition copy_from_user :: "(nat \<Rightarrow> u8 option) \<Rightarrow> nat \<Rightarrow> nat \<Rightarrow> u8 list option" where
  "copy_from_user user off n = those (map (\<lambda>j. user (off + j)) [0..<n])"

text \<open>The loop over the pages, on fuel: \<open>i\<close> bytes have been written.\<close>

primrec pages_loop ::
  "nat \<Rightarrow> 'd block_write \<Rightarrow> (nat \<Rightarrow> u8 option) \<Rightarrow> int \<Rightarrow> int \<Rightarrow> u32 \<Rightarrow> u32 \<Rightarrow> nat \<Rightarrow> 'd \<Rightarrow> u8 list \<Rightarrow> fault + (int \<times> 'd)" where
  "pages_loop 0 block user psize f_pos cnt i left d tmp = Inl OutOfFuel"
| "pages_loop (Suc n) block user psize f_pos cnt i left d tmp =
     (if i < cnt then
        let addr = word_of_int (f_pos + sint i);
            len = chunk_len psize addr i cnt
        in case copy_from_user user (unat i) (unat len) of
             None \<Rightarrow> Inr (- EFAULT, d)
           | Some bytes \<Rightarrow> ebind (store tmp 0 bytes) (\<lambda>tmp.
               let (ret, left, d) = block_retry left block d (ucast addr) (ucast len) tmp in
               if ret < 0 then Inr (ret, d)
               else pages_loop n block user psize f_pos cnt (i + len) left d tmp)
      else Inr (sint i, d))"

definition at24_write_pages ::
  "nat \<Rightarrow> 'd block_write \<Rightarrow> u8 list option \<Rightarrow> at24_chip \<Rightarrow> (nat \<Rightarrow> u8 option) \<Rightarrow> u32 \<Rightarrow> int \<Rightarrow> 'd \<Rightarrow>
    fault + (int \<times> 'd \<times> int)" where
  "at24_write_pages fuel block kmalloc chip user cnt f_pos d =
     (let psize = int (unat (page_size chip)) in
      if f_pos \<ge> int (unat (byte_len chip)) then Inr (0, d, f_pos)
      else case kmalloc of
        None \<Rightarrow> Inr (- EFAULT, d, f_pos)
      | Some tmp \<Rightarrow>
          if psize = 0 \<and> 0 < cnt then Inl DivByZero
          else ebind (pages_loop fuel block user psize f_pos cnt 0 5 d tmp) (\<lambda>(ret, d).
            Inr (ret, d, if ret > 0 then f_pos + ret else f_pos)))"

section \<open>The contract of the device\<close>

text \<open>
  A page write of the EEPROM: the address counter runs inside the page and rolls over at its end, so
  bytes past the end of the page overwrite its beginning. The SMBus layer sends at most 32 bytes.
\<close>

definition page_store :: "nat \<Rightarrow> u8 list \<Rightarrow> nat \<Rightarrow> u8 list \<Rightarrow> u8 list" where
  "page_store p mem c bs = fold (\<lambda>(j, b) mem. mem[c div p * p + (c + j) mod p := b]) (enumerate 0 bs) mem"

definition blocks_ok :: "nat \<Rightarrow> 'd block_write \<Rightarrow> ('d \<Rightarrow> u8 list) \<Rightarrow> bool" where
  "blocks_ok p block cells \<longleftrightarrow> (\<forall>d command len tmp. 0 < len \<longrightarrow> unat len \<le> 32 \<longrightarrow> unat len \<le> length tmp \<longrightarrow>
     (case block d command len tmp of (ret, d') \<Rightarrow>
        cells d' = (if ret < 0 then cells d else page_store p (cells d) (unat command) (take (unat len) tmp))))"

lemma page_store_snoc:
  "page_store p mem c (bs @ [b]) = (page_store p mem c bs)[c div p * p + (c + length bs) mod p := b]"
  by (simp add: page_store_def enumerate_append_eq)

lemma page_store_Nil [simp]: "page_store p mem c [] = mem"
  by (simp add: page_store_def)

text \<open>Inside a page nothing rolls over.\<close>

lemma page_cell:
  fixes p a j :: nat
  assumes "p dvd 256" "0 < p" "a mod p + j < p"
  shows "(a mod 256) div p * p + (a mod 256 + j) mod p = (a + j) mod 256"
proof -
  let ?c = "a mod 256"
  have "?c mod p = a mod p" using assms(1) by (rule mod_mod_cancel)
  then have c: "?c mod p + j < p" using assms(3) by simp
  then have "(?c + j) mod p = ?c mod p + j" by (metis mod_add_left_eq mod_less)
  then have cell: "?c div p * p + (?c + j) mod p = ?c + j" by (metis add.assoc div_mult_mod_eq)
  obtain q where q: "256 = p * q" using assms(1) by (rule dvdE)
  have "?c div p < q" using q assms(2) by (metis less_mult_imp_div_less mod_less_divisor mult.commute zero_less_numeral)
  then have "(?c div p + 1) * p \<le> q * p" by (intro mult_right_mono) simp_all
  then have "?c div p * p + p \<le> 256" using q by (simp add: algebra_simps)
  moreover have "?c + j = ?c div p * p + (?c mod p + j)" by (metis add.assoc div_mult_mod_eq)
  ultimately have "?c + j < 256" using c by linarith
  then have "(a + j) mod 256 = ?c + j" by (metis mod_add_left_eq mod_less)
  then show ?thesis using cell by simp
qed

lemma page_store_written:
  assumes "p dvd 256" "0 < p"
  shows "(a + k) mod p + m \<le> p \<Longrightarrow>
    page_store p (written mem user a k) ((a + k) mod 256) (map (\<lambda>j. the (user (k + j))) [0..<m]) = written mem user a (k + m)"
proof (induction m)
  case (Suc m)
  then have "((a + k) mod 256) div p * p + ((a + k) mod 256 + m) mod p = (a + k + m) mod 256"
    by (intro page_cell [OF assms]) simp
  with Suc show ?case by (simp add: page_store_snoc add.assoc)
qed simp

section \<open>What it stores\<close>

lemma block_retry_cells:
  assumes dev: "blocks_ok p block cells" and len: "0 < len" "unat len \<le> 32" "unat len \<le> length tmp"
  shows "block_retry left block d command len tmp = (ret, left', d') \<Longrightarrow>
    cells d' = (if ret < 0 then cells d else page_store p (cells d) (unat command) (take (unat len) tmp))"
proof (induction left arbitrary: d)
  case 0
  then show ?case using dev len by (auto simp: blocks_ok_def split: prod.splits)
next
  case (Suc left)
  obtain r e where e: "block d command len tmp = (r, e)" by (cases "block d command len tmp")
  then have "cells e = (if r < 0 then cells d else page_store p (cells d) (unat command) (take (unat len) tmp))"
    using dev len by (auto simp: blocks_ok_def split: prod.splits)
  then show ?case using Suc e by (cases "r < 0") auto
qed

text \<open>The answer that ends a failed block is the device's own answer to that block, with the cells unchanged.\<close>

lemma block_retry_refused:
  assumes dev: "blocks_ok p block cells" and len: "0 < len" "unat len \<le> 32" "unat len \<le> length tmp"
  shows "block_retry left block d command len tmp = (ret, left', d') \<Longrightarrow> ret < 0 \<Longrightarrow>
    \<exists>e. block e command len tmp = (ret, d') \<and> cells e = cells d"
proof (induction left arbitrary: d)
  case 0
  then show ?case by (auto intro!: exI [of _ d] split: prod.splits)
next
  case (Suc left)
  obtain r e where e: "block d command len tmp = (r, e)" by (cases "block d command len tmp")
  show ?case
  proof (cases "r < 0")
    case True
    moreover from this have "cells e = cells d" using dev len e by (auto simp: blocks_ok_def split: prod.splits)
    ultimately show ?thesis using Suc.IH [of e] Suc.prems e by simp
  next
    case False
    then show ?thesis using Suc.prems e by simp
  qed
qed

lemma those_None: "those xs = None \<longleftrightarrow> None \<in> set xs"
  by (induction xs) (auto split: option.splits)

lemma those_Some: "those xs = Some ys \<Longrightarrow> ys = map the xs"
  by (induction xs arbitrary: ys) (auto split: option.splits)

lemma copy_from_user_bytes: "copy_from_user user off n = Some bs \<Longrightarrow> bs = map (\<lambda>j. the (user (off + j))) [0..<n]"
  unfolding copy_from_user_def by (drule those_Some) simp

lemma copy_from_user_fails: "copy_from_user user off n = None \<Longrightarrow> \<exists>j. off \<le> j \<and> j < off + n \<and> user j = None"
proof -
  assume "copy_from_user user off n = None"
  then obtain x where "x < n" "user (off + x) = None" unfolding copy_from_user_def those_None by auto
  then show ?thesis by (intro exI [of _ "off + x"]) simp
qed

text \<open>
  A refused block: with the first \<open>j\<close> bytes stored, the device answers the block of user's bytes that begins
  at byte \<open>j\<close> with the error \<open>ret\<close>, and is left in \<open>d'\<close>.
\<close>

definition refused ::
  "'d block_write \<Rightarrow> ('d \<Rightarrow> u8 list) \<Rightarrow> u8 list \<Rightarrow> (nat \<Rightarrow> u8 option) \<Rightarrow> nat \<Rightarrow> nat \<Rightarrow> nat \<Rightarrow> int \<Rightarrow> 'd \<Rightarrow> bool" where
  "refused block cells mem user a N j ret d' \<longleftrightarrow> (\<exists>e len tmp. block e (of_nat (a + j)) len tmp = (ret, d') \<and>
     0 < unat len \<and> j + unat len \<le> N \<and> take (unat len) tmp = map (\<lambda>i. the (user (j + i))) [0..<unat len] \<and>
     cells e = written mem user a j \<and> cells d' = written mem user a j)"

lemma pages_loop_result:
  assumes dev: "blocks_ok p block cells" and p: "p dvd 256" "0 < p" "p \<le> 32" and pos: "a + N + p < 2 ^ 31"
  shows "k \<le> N \<Longrightarrow> N - k < rounds \<Longrightarrow> length tmp = p \<Longrightarrow> cells d = written mem user a k \<Longrightarrow>
    \<exists>ret d'. pages_loop rounds block user (int p) (int a) (of_nat N) (of_nat k) left d tmp = Inr (ret, d') \<and>
      (ret = int N \<and> cells d' = written mem user a N \<or>
       ret < 0 \<and> ((\<exists>j < N. user j = None) \<or> (\<exists>j < N. refused block cells mem user a N j ret d')))"
proof (induction rounds arbitrary: k left d tmp)
  case (Suc rounds)
  have bounds: "N < 2 ^ 31" "k < 2 ^ 31" using pos Suc.prems(1) by simp_all
  have sint_k: "sint (of_nat k :: u32) = int k" using bounds(2) by (rule sint_of_nat_u32)
  show ?case
  proof (cases "k < N")
    case False
    then have "k = N" using Suc.prems(1) by simp
    then show ?thesis using Suc.prems sint_k by simp
  next
    case True
    then have lt: "(of_nat k :: u32) < of_nat N" "unat (of_nat k :: u32) = k"
      using bounds by (simp_all add: word_less_nat_alt unat_of_nat_u32)
    define m where "m = min (p - (a + k) mod p) (N - k)"
    have m: "0 < m" "m \<le> p" "k + m \<le> N" "(a + k) mod p + m \<le> p"
      using p True mod_less_divisor [OF p(2), of "a + k"] unfolding m_def by linarith+
    have addr: "word_of_int (int a + sint (of_nat k :: u32)) = (of_nat (a + k) :: u32)"
      unfolding sint_k by (simp flip: of_nat_add)
    have len: "chunk_len (int p) (of_nat (a + k)) (of_nat k) (of_nat N) = of_nat m"
      unfolding m_def by (rule chunk_len_page) (use p pos True in simp_all)
    have um: "unat (of_nat m :: u32) = m" by (rule unat_of_nat_u32) (use m(2) p(3) in simp)
    let ?len = "ucast (of_nat m :: u32) :: u8" and ?c = "ucast (of_nat (a + k) :: u32) :: u8"
    have len8: "unat ?len = m" using m(2) p(3) by (simp add: u8_command)
    have c: "unat ?c = (a + k) mod 256" by (rule u8_command)
    note unfold = pages_loop.simps(2) [of rounds block user "int p" "int a" "of_nat N" "of_nat k" left d tmp]
    show ?thesis
    proof (cases "copy_from_user user k m")
      case None
      then have "pages_loop (Suc rounds) block user (int p) (int a) (of_nat N) (of_nat k) left d tmp = Inr (- EFAULT, d)"
        unfolding unfold addr len Let_def um using lt by simp
      moreover have "\<exists>j < N. user j = None" using copy_from_user_fails [OF None] m(3) by (meson less_le_trans)
      ultimately show ?thesis by auto
    next
      case (Some bs)
      have bs: "bs = map (\<lambda>j. the (user (k + j))) [0..<m]" using copy_from_user_bytes [OF Some] .
      let ?tmp = "overwrite tmp 0 bs"
      have tmp: "length ?tmp = p" "take m ?tmp = bs"
        using m(2) Suc.prems(3) by (simp_all add: bs overwrite_def)
      obtain r left' e where e: "block_retry left block d ?c ?len ?tmp = (r, left', e)"
        by (cases "block_retry left block d ?c ?len ?tmp")
      have cells: "cells e = (if r < 0 then cells d else written mem user a (k + m))"
        using block_retry_cells [OF dev _ _ _ e] len8 m p(3) tmp page_store_written [OF p(1,2) m(4), of mem user]
        by (simp add: word_less_nat_alt c bs Suc.prems(4) del: of_nat_add)
      have step: "pages_loop (Suc rounds) block user (int p) (int a) (of_nat N) (of_nat k) left d tmp =
          (if r < 0 then Inr (r, e)
           else pages_loop rounds block user (int p) (int a) (of_nat N) (of_nat (k + m)) left' e ?tmp)"
        unfolding unfold addr len Let_def um using lt Some e m(2) Suc.prems(3) by (simp add: store_def bs)
      show ?thesis
      proof (cases "r < 0")
        case True
        have len: "0 < ?len" "unat ?len \<le> 32" "unat ?len \<le> length ?tmp"
          using m(1,2) p(3) len8 tmp(1) by (simp_all add: word_less_nat_alt)
        obtain e0 where e0: "block e0 ?c ?len ?tmp = (r, e)" "cells e0 = cells d"
          using block_retry_refused [OF dev len e True] by blast
        have "unat ?c = unat (of_nat (a + k) :: u8)"
          unfolding c by (simp add: unsigned_of_nat take_bit_eq_mod del: of_nat_add)
        then have "?c = of_nat (a + k)" by (rule word_unat_eq_iff [THEN iffD2])
        then have "refused block cells mem user a N k r e"
          unfolding refused_def using e0 True cells Suc.prems(4) len8 m(1,3) tmp(2) bs
          by (intro exI [of _ e0] exI [of _ ?len] exI [of _ ?tmp]) (simp del: of_nat_add)
        then show ?thesis using True step \<open>k < N\<close> by auto
      next
        case False
        have "N - (k + m) < rounds" using m(1,3) Suc.prems(2) by linarith
        from Suc.IH [OF m(3) this tmp(1), of e left'] cells False step show ?thesis by simp
      qed
    qed
  qed
qed simp

lemma write_taken:
  assumes "writes_ok sm cells" "N < 2 ^ 31" and wr: "at24_write sm user (of_nat N) (int a) d = (int N, d', pos)"
  shows "\<forall>j < N. user j \<noteq> None"
proof -
  obtain j r e where j: "write_loop sm user (int a) (of_nat N) (of_nat 0) d = (r, of_nat j, e)"
      "\<forall>i. 0 \<le> i \<longrightarrow> i < j \<longrightarrow> user i \<noteq> None" "if j = N then r = int N else r < 0"
    using write_loop_result [where k = 0 and d = d and mem = "cells d" and user = user and a = a, OF assms(1,2)]
    by auto
  have "r = int N" using wr j(1) by (simp add: at24_write_def split: if_splits)
  then have "j = N" using j(3) by (auto split: if_splits)
  then show ?thesis using j(2) by simp
qed

text \<open>C23: The faster write is as good as the one in use, for a write that begins inside the device and whose bytes
  the byte-wise one can all store: with fuel for a round per byte the page-wise write never
  faults; it either stores every byte and advances, and then leaves the cells, the position and the result
  exactly as the byte-wise write of the same bytes to a device with the same cells does, or, if the device refuses
  a block of the user's bytes, it ends with the device's answer to that block, the position unchanged, and exactly the
  bytes before that block stored. It rests on every chunk staying
  inside a page, since the device rolls over at the end of one.\<close>
theorem pages_equal_bytes:
  assumes dev: "blocks_ok (unat (page_size chip)) block cells" "writes_ok sm sm_cells"
    and page: "unat (page_size chip) dvd 256" "0 < unat (page_size chip)" "unat (page_size chip) \<le> 32"
      "length tmp = unat (page_size chip)"
    and pos: "a < unat (byte_len chip)" "a + N + unat (page_size chip) < 2 ^ 31" "N < rounds"
    and same: "sm_cells e = cells d" and wr: "at24_write sm user (of_nat N) (int a) e = (int N, e', pos)"
  shows "\<exists>ret d' pos'. at24_write_pages rounds block (Some tmp) chip user (of_nat N) (int a) d = Inr (ret, d', pos') \<and>
    (ret = int N \<and> cells d' = sm_cells e' \<and> pos' = pos \<or>
     ret < 0 \<and> pos' = int a \<and> (\<exists>j < N. refused block cells (cells d) user a N j ret d'))"
proof -
  have N: "N < 2 ^ 31" using pos(2) by linarith
  then have ref: "pos = int (a + N)" "sm_cells e' = written (cells d) user a N"
    using write_result [OF dev(2) _ wr] same by simp_all
  have readable: "\<forall>j < N. user j \<noteq> None" using write_taken [OF dev(2) N wr] .
  obtain ret d' where d': "pages_loop rounds block user (int (unat (page_size chip))) (int a) (of_nat N) (of_nat 0) 5 d tmp =
        Inr (ret, d')"
      "ret = int N \<and> cells d' = written (cells d) user a N \<or>
       ret < 0 \<and> ((\<exists>j < N. user j = None) \<or> (\<exists>j < N. refused block cells (cells d) user a N j ret d'))"
    using pages_loop_result [OF dev(1) page(1-3) pos(2), of 0 rounds tmp d "cells d" user 5] page(4) pos(3) by auto
  then have "at24_write_pages rounds block (Some tmp) chip user (of_nat N) (int a) d =
      Inr (ret, d', if ret > 0 then int a + ret else int a)"
    using pos(1) page(2) by (simp add: at24_write_pages_def del: of_nat_unat)
  then show ?thesis using d'(2) ref readable by auto
qed

section \<open>Where they differ\<close>

text \<open>
  The page-wise write stops at the end of the device with a result of 0; the one in use goes on, and
  its bytes wrap around to the first cells.
\<close>

theorem pages_stop_at_end:
  assumes "unat (byte_len chip) \<le> a"
  shows "at24_write_pages fuel block kmalloc chip user cnt (int a) d = Inr (0, d, int a)"
  using assms by (simp add: at24_write_pages_def Let_def del: of_nat_unat)

theorem pages_stop_at_end_witness:
  "at24_write_pages 3 (\<lambda>d _ _ _. (0, d)) None chip_24c02 (\<lambda>_. Some 1) 2 256 () = Inr (0, (), 256)"
  using pages_stop_at_end [of chip_24c02 256 3 "\<lambda>d _ _ _. (0, d)" None "\<lambda>_. Some 1" 2 "()"]
  by (simp add: chip_24c02_def)

section \<open>An example\<close>

definition paged :: "u8 list block_write" where
  "paged d command len tmp = (0, page_store 8 d (unat command) (take (unat len) tmp))"

lemma paged_ok: "blocks_ok 8 paged (\<lambda>d. d)"
  by (simp add: blocks_ok_def paged_def)

theorem pages_equal_bytes_witness:
  "\<exists>d' e' pos. at24_write picky (\<lambda>_. Some 5) (of_nat 2) (int 100) (replicate 256 9) = (int 2, e', pos) \<and>
     at24_write_pages 3 paged (Some (replicate 8 0)) chip_24c02 (\<lambda>_. Some 5) (of_nat 2) (int 100) (replicate 256 9) =
       Inr (2, d', pos) \<and> d' = e'"
proof -
  obtain e' where w: "at24_write picky (\<lambda>_. Some 5) (of_nat 2) (int 100) (replicate 256 9) = (int 2, e', 102)"
    using picky_takes by blast
  have "\<exists>ret d' pos'. at24_write_pages 3 paged (Some (replicate 8 0)) chip_24c02 (\<lambda>_. Some 5) (of_nat 2) (int 100)
      (replicate 256 9) = Inr (ret, d', pos') \<and> (ret = int 2 \<and> d' = e' \<and> pos' = 102 \<or>
      ret < 0 \<and> pos' = int 100 \<and>
        (\<exists>j < 2. refused paged (\<lambda>d. d) (replicate 256 9) (\<lambda>_. Some 5) 100 2 j ret d'))"
    by (rule pages_equal_bytes [OF _ picky_writes _ _ _ _ _ _ _ _ w]) (simp_all add: chip_24c02_def paged_ok)
  then show ?thesis using w by (auto simp: paged_def refused_def)
qed

end
