(* ===== verification/AT24_Probe.thy ===== *)
theory AT24_Probe
  imports AT24
begin

text \<open>
  The EEPROM driver, \<open>i2c/dev_drv/at24cxx_drv.c\<close>: how it recognises a chip, its probe and
  remove functions and its module hooks; and the two modules that announce the EEPROM,
  \<open>i2c/devices/at24c02_dev.c\<close> and \<open>i2c/devices/at24c02_probe_dev.c\<close>. The results of the kernel's
  functions are a parameter; what is acquired and released is recorded.
\<close>

section \<open>The magic number of a chip\<close>

definition AT24_SIZE_BYTELEN :: nat where "AT24_SIZE_BYTELEN = 5"
definition AT24_SIZE_FLAGS :: nat where "AT24_SIZE_FLAGS = 8"

definition AT24_BITMASK :: "nat \<Rightarrow> u32" where
  "AT24_BITMASK x = push_bit x 1 - 1"

fun ilog2 :: "nat \<Rightarrow> nat" where
  "ilog2 n = (if n < 2 then 0 else Suc (ilog2 (n div 2)))"

declare ilog2.simps [simp del]

definition AT24_DEVICE_MAGIC :: "nat \<Rightarrow> u32 \<Rightarrow> u32" where
  "AT24_DEVICE_MAGIC len flg =
     push_bit AT24_SIZE_BYTELEN (push_bit AT24_SIZE_FLAGS 1 OR flg) OR of_nat (ilog2 len)"

definition at24_ids :: "(string \<times> u32) list" where
  "at24_ids = [(''24c02'', AT24_DEVICE_MAGIC (2048 div 8) 0)]"

text \<open>The decoding in the probe function.\<close>

definition chip_of_magic :: "u32 \<Rightarrow> at24_chip" where
  "chip_of_magic magic =
     (let len = push_bit (unat (magic AND AT24_BITMASK AT24_SIZE_BYTELEN)) 1;
          magic = drop_bit AT24_SIZE_BYTELEN magic
      in \<lparr>byte_len = len, page_size = 8, flags = ucast (magic AND AT24_BITMASK AT24_SIZE_FLAGS)\<rparr>)"

section \<open>Probe and remove\<close>

datatype at24_res = Dummy nat | Region | Cdev | Device

text \<open>
  What probing meets: platform data or the magic number of the table, the results of
  \<open>devm_kzalloc\<close>, \<open>i2c_new_dummy\<close> (for each address), \<open>alloc_chrdev_region\<close>, \<open>cdev_add\<close> and
  \<open>device_create\<close> (\<open>None\<close> for success). Managed memory is released by the driver core and is not in the
  ledger.
\<close>

record probe_env =
  platform_data :: "at24_chip option"
  driver_data :: u32
  kzalloc_ok :: bool
  dummy_ok :: "nat \<Rightarrow> bool"
  region_ret :: int
  cdev_ret :: int
  device_err :: "int option"

text \<open>\<open>client\<close>: which pointers of the flexible array are not null; its length is what was allocated.\<close>

record at24_data =
  chip :: at24_chip
  num_addresses :: u32
  client :: "bool list"

text \<open>Opening the device: the driver data of its \<open>cdev\<close> becomes the private data of the file.\<close>

record at24_file =
  private_data :: "at24_data option"

definition at24_open :: "at24_data \<Rightarrow> at24_file \<Rightarrow> int \<times> at24_file" where
  "at24_open at24 filp = (0, filp\<lparr>private_data := Some at24\<rparr>)"

definition probed_chip :: "probe_env \<Rightarrow> at24_chip" where
  "probed_chip env = (case platform_data env of Some c \<Rightarrow> c | None \<Rightarrow> chip_of_magic (driver_data env))"

definition DIV_ROUND_UP :: "u32 \<Rightarrow> u32 \<Rightarrow> u32" where
  "DIV_ROUND_UP n d = (n + d - 1) div d"

primrec new_dummies :: "(nat \<Rightarrow> bool) \<Rightarrow> nat list \<Rightarrow> bool list \<Rightarrow> bool \<times> bool list \<times> at24_res event list" where
  "new_dummies ok [] cl = (True, cl, [])"
| "new_dummies ok (i # is) cl =
     (if ok i then let (r, cl, es) = new_dummies ok is (cl[i := True]) in (r, cl, Acq (Dummy i) # es)
      else (False, cl, []))"

text \<open>The loop that unregisters the dummy clients, in the error path and in \<open>at24_remove\<close>.\<close>

definition free_dummies :: "nat \<Rightarrow> bool list \<Rightarrow> at24_res event list" where
  "free_dummies n cl = map (\<lambda>i. Rel (Dummy i)) (filter (\<lambda>i. cl ! i) [1..<n])"

text \<open>From the character device on: the return value and the calls.\<close>

definition probe_chrdev :: "probe_env \<Rightarrow> at24_res event list \<Rightarrow> int \<times> at24_res event list" where
  "probe_chrdev env cleanup =
     (if region_ret env < 0 then (region_ret env, cleanup)
      else if cdev_ret env \<noteq> 0 then (cdev_ret env, [Acq Region, Rel Region] @ cleanup)
      else case device_err env of
        Some err \<Rightarrow> (err, [Acq Region, Acq Cdev, Rel Cdev, Rel Region] @ cleanup)
      | None \<Rightarrow> (0, [Acq Region, Acq Cdev, Acq Device]))"

definition at24_probe :: "probe_env \<Rightarrow> fault + (int \<times> at24_res event list \<times> at24_data option)" where
  "at24_probe env =
     (let c = probed_chip env;
          num = DIV_ROUND_UP (byte_len c) 256;
          n = unat num
      in if page_size c = 0 then Inr (- EINVAL, [], None)
         else if \<not> kzalloc_ok env then Inr (- ENOMEM, [], None)
         else ebind (put (replicate n False) 0 True) (\<lambda>cl.
           let (ok, cl, es) = new_dummies (dummy_ok env) [1..<n] cl
           in if \<not> ok then Inr (- EADDRINUSE, es @ free_dummies n cl, None)
              else let (ret, es') = probe_chrdev env (free_dummies n cl)
                in Inr (ret, es @ es', if ret = 0 then Some \<lparr>chip = c, num_addresses = num, client = cl\<rparr>
                     else None)))"

definition at24_remove :: "at24_data \<Rightarrow> at24_res event list" where
  "at24_remove at24 =
     [Rel Device, Rel Cdev, Rel Region] @ free_dummies (unat (num_addresses at24)) (client at24)"

section \<open>The modules\<close>

datatype module_res = Class | Driver | Adapter | Client

text \<open>\<open>at24_init\<close>: the results of \<open>class_create\<close> (an error or none) and \<open>i2c_add_driver\<close>.\<close>

definition at24_init :: "int option \<Rightarrow> int \<Rightarrow> int \<times> module_res event list" where
  "at24_init class_err add_ret =
     (case class_err of
        Some err \<Rightarrow> (err, [])
      | None \<Rightarrow> (add_ret, Acq Class # (if add_ret = 0 then [Acq Driver] else [])))"

definition at24_exit :: "module_res event list" where
  "at24_exit = [Rel Driver, Rel Class]"

text \<open>
  The modules that announce the device: at a fixed address, or at the first of a list of addresses
  where a device answers. The list ends at \<open>I2C_CLIENT_END\<close>.
\<close>

definition at24cxx_info :: "string \<times> u16" where
  "at24cxx_info = (''24c02'', 0x40)"

definition I2C_CLIENT_END :: u16 where "I2C_CLIENT_END = 0xfffe"

definition at24_addrs :: "u16 list" where
  "at24_addrs = [0x2c, 0x50, I2C_CLIENT_END]"

text \<open>\<open>i2c_new_device\<close> succeeds or not; \<open>i2c_new_probed_device\<close> succeeds at an address of the list.\<close>

definition device_init :: "bool \<Rightarrow> bool \<Rightarrow> int \<times> module_res event list" where
  "device_init adapter_ok new_ok =
     (if \<not> adapter_ok then (- ENODEV, [])
      else (if new_ok then 0 else - ENODEV,
            Acq Adapter # (if new_ok then [Acq Client] else []) @ [Rel Adapter]))"

definition at24cxx_device_init :: "bool \<Rightarrow> (u16 \<Rightarrow> bool) \<Rightarrow> int \<times> module_res event list" where
  "at24cxx_device_init adapter_ok register = device_init adapter_ok (register (snd at24cxx_info))"

text \<open>\<open>new_probed\<close> is the kernel's \<open>i2c_new_probed_device\<close> for the list it is given: whether there is a client.\<close>

definition at24cxx_probed_init :: "bool \<Rightarrow> (u16 list \<Rightarrow> bool) \<Rightarrow> int \<times> module_res event list" where
  "at24cxx_probed_init adapter_ok new_probed = device_init adapter_ok (new_probed at24_addrs)"

definition at24cxx_device_exit :: "module_res event list" where
  "at24cxx_device_exit = [Rel Client]"

end
