(* ===== verification/AT24_Life.thy ===== *)
theory AT24_Life
  imports AT24_Probe
begin

text \<open>
  What the probe and remove functions of the EEPROM driver and the modules around it guarantee:
  the magic number decodes to the chip it encodes, every path through probe and remove gives back
  what it took, and where the module hooks do not.
\<close>

section \<open>The magic number\<close>

lemma ilog2_power: "ilog2 (2 ^ k) = k"
proof (induction k)
  case (Suc k)
  have "(2 :: nat) ^ k \<ge> 1" by simp
  then show ?case using Suc by (subst ilog2.simps) simp
qed (simp add: ilog2.simps)

lemma bit_of_nat_less:
  "n < 2 ^ k \<Longrightarrow> k \<le> j \<Longrightarrow> \<not> bit (of_nat n :: 'a::len word) j"
  by (metis bit_take_bit_iff linorder_not_le of_nat_take_bit take_bit_nat_eq_self take_bit_of_nat)

text \<open>The table entry of a chip decodes to the chip: any power of two of bytes and the low eight flag
  bits survive the packing into the magic number.\<close>
theorem magic_roundtrip:
  assumes "k < 32"
  shows "chip_of_magic (AT24_DEVICE_MAGIC (2 ^ k) flg) =
    \<lparr>byte_len = push_bit k 1, page_size = 8, flags = ucast flg\<rparr>"
proof -
  define X where "X = (push_bit 8 1 OR flg :: u32)"
  have X: "bit X n = bit flg n" if "n < 8" for n
    using that by (simp add: X_def bit_or_iff bit_push_bit_iff del: push_bit_of_1)
  have magic: "AT24_DEVICE_MAGIC (2 ^ k) flg = push_bit 5 X OR of_nat k"
    by (simp add: AT24_DEVICE_MAGIC_def ilog2_power AT24_SIZE_BYTELEN_def AT24_SIZE_FLAGS_def X_def)
  have masks: "AT24_BITMASK AT24_SIZE_BYTELEN = mask 5" "AT24_BITMASK AT24_SIZE_FLAGS = mask 8"
    by (simp_all add: AT24_BITMASK_def AT24_SIZE_BYTELEN_def AT24_SIZE_FLAGS_def mask_eq_exp_minus_1)
  have k: "\<not> bit (of_nat k :: u32) j" if "5 \<le> j" for j
    using bit_of_nat_less [of k 5 j, where 'a = 32] assms that by simp
  have low: "AT24_DEVICE_MAGIC (2 ^ k) flg AND AT24_BITMASK AT24_SIZE_BYTELEN = of_nat k"
    unfolding magic masks take_bit_eq_mask [symmetric]
    by (rule bit_eqI) (use k in \<open>auto simp: bit_take_bit_iff bit_or_iff bit_push_bit_iff not_less\<close>)
  have high: "ucast (drop_bit AT24_SIZE_BYTELEN (AT24_DEVICE_MAGIC (2 ^ k) flg) AND
      AT24_BITMASK AT24_SIZE_FLAGS) = (ucast flg :: u8)"
    unfolding magic masks take_bit_eq_mask [symmetric] AT24_SIZE_BYTELEN_def
    by (rule bit_eqI) (use k X in \<open>auto simp: bit_simps\<close>)
  have "unat (of_nat k :: u32) = k" using assms by (simp add: unat_of_nat_u32)
  then show ?thesis using low high by (simp add: chip_of_magic_def)
qed

theorem magic_roundtrip_witness:
  "chip_of_magic (snd (at24_ids ! 0)) = \<lparr>byte_len = 256, page_size = 8, flags = 0\<rparr>"
  using magic_roundtrip [of 8 0] by (simp add: at24_ids_def)

section \<open>Probe and remove\<close>

text \<open>
  The dummy clients: up to the first that fails, all are acquired, and the array says which.
\<close>

lemma new_dummies_result:
  assumes "a \<le> n" "length cl = n"
  shows "\<exists>k. a \<le> k \<and> k \<le> n \<and> new_dummies ok [a..<n] cl =
    (k = n, map (\<lambda>i. if a \<le> i \<and> i < k then True else cl ! i) [0..<n], map (\<lambda>i. Acq (Dummy i)) [a..<k])"
  using assms
proof (induction "n - a" arbitrary: a cl)
  case 0
  then show ?case by (intro exI [of _ n]) (auto intro: nth_equalityI)
next
  case (Suc m)
  then have a: "a < n" "[a..<n] = a # [Suc a..<n]" "m = n - Suc a" by (simp_all add: upt_conv_Cons)
  show ?case
  proof (cases "ok a")
    case False
    then show ?thesis using a Suc.prems by (intro exI [of _ a]) (auto intro: nth_equalityI)
  next
    case True
    obtain k where k: "Suc a \<le> k" "k \<le> n" "new_dummies ok [Suc a..<n] (cl[a := True]) =
        (k = n, map (\<lambda>i. if Suc a \<le> i \<and> i < k then True else cl[a := True] ! i) [0..<n],
         map (\<lambda>i. Acq (Dummy i)) [Suc a..<k])"
      using Suc.hyps(1) [of "Suc a" "cl[a := True]"] Suc.prems a(1,3) by auto
    have "map (\<lambda>i. if Suc a \<le> i \<and> i < k then True else cl[a := True] ! i) [0..<n] =
        map (\<lambda>i. if a \<le> i \<and> i < k then True else cl ! i) [0..<n]"
      using k(1) Suc.prems(2) by (auto simp: nth_list_update)
    moreover have "[a..<k] = a # [Suc a..<k]" using k(1) by (simp add: upt_conv_Cons)
    ultimately show ?thesis using k a(2) True by (intro exI [of _ k]) auto
  qed
qed

text \<open>The dummies of a probe: \<open>k\<close> is the first address that is not available, or the end.\<close>

lemma probe_dummies:
  assumes "0 < n"
  shows "\<exists>k cl. 1 \<le> k \<and> k \<le> n \<and> new_dummies ok [1..<n] ((replicate n False)[0 := True]) =
      (k = n, cl, map Acq (map Dummy [1..<k])) \<and>
    free_dummies n cl = map Rel (map Dummy [1..<k]) \<and> (k = n \<longrightarrow> cl = replicate n True)"
proof -
  let ?cl = "(replicate n False)[0 := True]"
  obtain k where k: "1 \<le> k" "k \<le> n" "new_dummies ok [1..<n] ?cl =
      (k = n, map (\<lambda>i. if 1 \<le> i \<and> i < k then True else ?cl ! i) [0..<n], map (\<lambda>i. Acq (Dummy i)) [1..<k])"
    using new_dummies_result [of 1 n ?cl ok] assms by auto
  let ?r = "map (\<lambda>i. if 1 \<le> i \<and> i < k then True else ?cl ! i) [0..<n]"
  have "filter (\<lambda>i. ?r ! i) [1..<n] = filter (\<lambda>i. i < k) [1..<n]"
    by (rule filter_cong) (auto simp: nth_list_update)
  also have "\<dots> = [1..<k]"
  proof -
    have "[1..<n] = [1..<k] @ [k..<n]" using k(1,2) upt_add_eq_append [of 1 k "n - k"] by simp
    then show ?thesis by (simp add: filter_id_conv filter_empty_conv)
  qed
  finally have "free_dummies n ?r = map Rel (map Dummy [1..<k])" by (simp add: free_dummies_def)
  moreover have "?r = replicate n True" if "k = n"
    by (rule nth_equalityI) (use that in \<open>auto simp: nth_list_update\<close>)
  ultimately show ?thesis using k by (intro exI [of _ k] exI [of _ ?r]) (simp add: comp_def)
qed

text \<open>
  The environments of a probe: a chip of at least one byte (which room for a client is made for), and an
  error of \<open>device_create\<close> is a negative number.
\<close>

definition at24_valid :: "probe_env \<Rightarrow> bool" where
  "at24_valid env \<longleftrightarrow> 0 < DIV_ROUND_UP (byte_len (probed_chip env)) 256 \<and>
     (case device_err env of None \<Rightarrow> True | Some err \<Rightarrow> err < 0)"

definition at24_start :: "probe_env \<Rightarrow> int \<times> at24_res event list" where
  "at24_start env = (case at24_probe env of Inl _ \<Rightarrow> (- EFAULT, []) | Inr (ret, es, _) \<Rightarrow> (ret, es))"

definition at24_stop :: "probe_env \<Rightarrow> at24_res event list" where
  "at24_stop env = (case at24_probe env of Inr (_, _, Some at24) \<Rightarrow> at24_remove at24 | _ \<Rightarrow> [])"

lemma probe_chrdev_ledger:
  assumes "case device_err env of None \<Rightarrow> True | Some err \<Rightarrow> err < 0"
  shows "ledger_from h (snd (probe_chrdev env cleanup)) =
    (if fst (probe_chrdev env cleanup) = 0 then Some (add_mset Device (add_mset Cdev (add_mset Region h)))
     else ledger_from h cleanup)"
  using assms by (auto simp: probe_chrdev_def split: option.splits)

text \<open>A probe that gets past the allocation: the two ways it ends.\<close>

definition probed_num :: "probe_env \<Rightarrow> u32" where
  "probed_num env = DIV_ROUND_UP (byte_len (probed_chip env)) 256"

definition dummies :: "nat \<Rightarrow> at24_res list" where
  "dummies n = map Dummy [1..<n]"

lemma free_dummies_all: "free_dummies n (replicate n True) = map Rel (dummies n)"
  by (auto simp: free_dummies_def dummies_def comp_def filter_id_conv)

lemma at24_probe_cases:
  assumes valid: "at24_valid env" and "page_size (probed_chip env) \<noteq> 0" "kzalloc_ok env"
  defines "n \<equiv> unat (probed_num env)"
  defines "c \<equiv> probe_chrdev env (map Rel (dummies n))"
  shows "(\<exists>k. at24_probe env = Inr (- EADDRINUSE, map Acq (dummies k) @ map Rel (dummies k), None)) \<or>
    at24_probe env = Inr (fst c, map Acq (dummies n) @ snd c,
      if fst c = 0 then Some \<lparr>chip = probed_chip env, num_addresses = probed_num env, client = replicate n True\<rparr>
      else None)"
proof -
  have n: "0 < n" using valid by (simp add: at24_valid_def n_def probed_num_def word_less_nat_alt)
  obtain k cl where k: "k \<le> n" "new_dummies (dummy_ok env) [1..<n] ((replicate n False)[0 := True]) =
      (k = n, cl, map Acq (dummies k))" "free_dummies n cl = map Rel (dummies k)"
      "k = n \<longrightarrow> cl = replicate n True"
    using probe_dummies [OF n, of "dummy_ok env"] unfolding dummies_def by blast
  have put: "put (replicate n False) 0 True = Inr ((replicate n False)[0 := True])" using n by simp
  show ?thesis
    using assms(2,3) put k unfolding at24_probe_def c_def n_def probed_num_def
    by (cases "k = n") (auto simp: Let_def split_def n_def probed_num_def)
qed

lemma ledger_acquired: "ledger (map Acq rs) = Some (mset rs)"
  using ledger_from_acquire [of "{#}" rs] by (simp add: ledger_def)

lemma ledger_released: "ledger_from (mset rs) (map Rel rs) = Some {#}"
  using ledger_from_release [of rs "{#}"] by simp

lemma at24_start_cases:
  assumes valid: "at24_valid env"
  shows "(fst (at24_start env) \<noteq> 0 \<longrightarrow> ledger (snd (at24_start env)) = Some {#}) \<and>
    (fst (at24_start env) = 0 \<longrightarrow> ledger (snd (at24_start env) @ at24_stop env) = Some {#})"
proof (cases "page_size (probed_chip env) \<noteq> 0 \<and> kzalloc_ok env")
  case False
  then show ?thesis by (auto simp: at24_start_def at24_probe_def Let_def ledger_def)
next
  case True
  define n where "n = unat (probed_num env)"
  define c where "c = probe_chrdev env (map Rel (dummies n))"
  have err: "case device_err env of None \<Rightarrow> True | Some err \<Rightarrow> err < 0"
    using valid by (simp add: at24_valid_def)
  note chr = probe_chrdev_ledger [OF err, of "mset (dummies n)" "map Rel (dummies n)", folded c_def]
  have all: "ledger (map Acq (dummies n) @ snd c) = ledger_from (mset (dummies n)) (snd c)"
    by (rule ledger_append [OF ledger_acquired])
  from at24_probe_cases [OF valid] True consider
    (dummies) k where "at24_probe env = Inr (- EADDRINUSE, map Acq (dummies k) @ map Rel (dummies k), None)"
    | (rest) "at24_probe env = Inr (fst c, map Acq (dummies n) @ snd c,
      if fst c = 0 then Some \<lparr>chip = probed_chip env, num_addresses = probed_num env, client = replicate n True\<rparr>
      else None)"
    unfolding c_def n_def by blast
  then show ?thesis
  proof cases
    case dummies
    then show ?thesis
      by (simp add: at24_start_def ledger_append [OF ledger_acquired] ledger_released)
  next
    case rest
    show ?thesis
    proof (cases "fst c = 0")
      case True
      have "at24_stop env = [Rel Device, Rel Cdev, Rel Region] @ map Rel (dummies n)"
        using rest True by (simp add: at24_stop_def at24_remove_def n_def free_dummies_all)
      then show ?thesis
        using rest True chr all ledger_released [of "dummies n"]
        by (simp add: at24_start_def ledger_append [where xs = "map Acq (dummies n) @ snd c"] flip: append_assoc)
    next
      case False
      then show ?thesis using rest chr all ledger_released [of "dummies n"] by (simp add: at24_start_def)
    qed
  qed
qed

interpretation at24: lifecycle at24_start at24_stop at24_valid
  by unfold_locales (use at24_start_cases in blast)+

text \<open>C11: Over any series of probes, each followed by a removal if it succeeded, every dummy client, device
  number, character device and device node is given back exactly once, whichever call of the
  kernel failed at whatever point.\<close>
theorem at24_cycles_balanced:
  assumes "list_all at24_valid envs"
  shows "ledger (concat (map (cycle at24_start at24_stop) envs)) = Some {#}"
  using assms by (rule at24.cycles_balanced)

text \<open>A chip with four addresses whose third is taken, then one where everything works.\<close>

definition env_1k :: "(nat \<Rightarrow> bool) \<Rightarrow> probe_env" where
  "env_1k ok = \<lparr>platform_data = Some \<lparr>byte_len = 1024, page_size = 8, flags = 0\<rparr>, driver_data = 0,
     kzalloc_ok = True, dummy_ok = ok, region_ret = 0, cdev_ret = 0, device_err = None\<rparr>"

theorem at24_cycles_balanced_witness:
  "ledger (cycle at24_start at24_stop (env_1k (\<lambda>i. i \<noteq> 3)) @ cycle at24_start at24_stop (env_1k (\<lambda>_. True))) =
     Some {#}"
proof -
  have "list_all at24_valid [env_1k (\<lambda>i. i \<noteq> 3), env_1k (\<lambda>_. True)]"
    by (simp add: at24_valid_def env_1k_def probed_chip_def DIV_ROUND_UP_def)
  from at24_cycles_balanced [OF this] show ?thesis by simp
qed

text \<open>Platform data with a length of 0 passes the checks (the length is only warned about), makes
  the driver allocate no room for a client pointer, and the store of the first client is
  outside the allocation.\<close>
theorem probe_zero_len_overflows:
  assumes "probed_chip env = \<lparr>byte_len = 0, page_size = p, flags = f\<rparr>" "p \<noteq> 0" "kzalloc_ok env"
  shows "at24_probe env = Inl OutOfBounds"
  using assms by (simp add: at24_probe_def DIV_ROUND_UP_def put_def)

theorem probe_zero_len_overflows_witness:
  "at24_probe ((env_1k (\<lambda>_. True))\<lparr>platform_data := Some \<lparr>byte_len = 0, page_size = 8, flags = 0\<rparr>\<rparr>) =
     Inl OutOfBounds"
  by (rule probe_zero_len_overflows [of _ 8 0]) (simp_all add: env_1k_def probed_chip_def)

section \<open>The modules\<close>

text \<open>\<open>at24_init\<close> returns what \<open>i2c_add_driver\<close> returns; when that fails, the class it
  created stays behind.\<close>
theorem at24_init_ledger:
  "ledger (snd (at24_init class_err add_ret)) =
     Some (if class_err \<noteq> None then {#} else if add_ret = 0 then {#Class, Driver#} else {#Class#})"
  by (auto simp: at24_init_def ledger_def split: option.splits)

lemma at24_exit_ledger: "ledger (snd (at24_init None 0) @ at24_exit) = Some {#}"
  by (simp add: at24_init_def at24_exit_def ledger_def)

lemma device_init_cases:
  "fst (device_init a b) \<noteq> 0 \<Longrightarrow> ledger (snd (device_init a b)) = Some {#}"
  "fst (device_init a b) = 0 \<Longrightarrow> ledger (snd (device_init a b) @ at24cxx_device_exit) = Some {#}"
  by (auto simp: device_init_def at24cxx_device_exit_def ledger_def split: if_splits)

interpretation at24_dev: lifecycle "\<lambda>(a, register). at24cxx_device_init a register"
  "\<lambda>_. at24cxx_device_exit" "\<lambda>_. True"
  by unfold_locales (auto simp: at24cxx_device_init_def device_init_cases)

interpretation at24_probed: lifecycle "\<lambda>(a, new_probed). at24cxx_probed_init a new_probed"
  "\<lambda>_. at24cxx_device_exit" "\<lambda>_. True"
  by unfold_locales (auto simp: at24cxx_probed_init_def device_init_cases)

text \<open>Loading and unloading the module that probes for the EEPROM never leaks the adapter or the
  client, whether or not an adapter exists, a device answers, or the registration works.\<close>
theorem at24_probed_cycles_balanced:
  "ledger (concat (map (cycle (\<lambda>(a, new_probed). at24cxx_probed_init a new_probed)
     (\<lambda>_. at24cxx_device_exit)) es)) = Some {#}"
  by (rule at24_probed.cycles_balanced) (simp add: list_all_iff)

text \<open>
  What \<open>i2c_new_probed_device\<close> promises: the client is registered at the first address of the list
  where a device answers, and there is none without an answer.
\<close>

definition probes_in_order :: "(u16 list \<Rightarrow> bool) \<Rightarrow> (u16 \<Rightarrow> bool) \<Rightarrow> (u16 \<Rightarrow> bool) \<Rightarrow> bool" where
  "probes_in_order new_probed answers register \<longleftrightarrow>
     (\<forall>addrs. new_probed addrs \<longleftrightarrow>
       (case find answers (takeWhile (\<lambda>a. a \<noteq> I2C_CLIENT_END) addrs) of None \<Rightarrow> False | Some a \<Rightarrow> register a))"

text \<open>The probing module registers the EEPROM at 0x2c if a device answers there, otherwise at 0x50,
  and nowhere else; without an answer it fails with \<open>-ENODEV\<close>.\<close>
theorem at24_probe_order:
  assumes "probes_in_order new_probed answers register"
  shows "at24cxx_probed_init True new_probed =
     (if answers 0x2c then device_init True (register 0x2c)
      else if answers 0x50 then device_init True (register 0x50)
      else (- ENODEV, [Acq Adapter, Rel Adapter]))"
  using assms by (simp add: probes_in_order_def at24cxx_probed_init_def at24_addrs_def I2C_CLIENT_END_def device_init_def)

theorem at24_probe_order_witness:
  "at24cxx_probed_init True (\<lambda>addrs. 0x50 \<in> set (takeWhile (\<lambda>a. a \<noteq> I2C_CLIENT_END) addrs)) = device_init True True"
proof -
  let ?new = "\<lambda>addrs. 0x50 \<in> set (takeWhile (\<lambda>a. a \<noteq> I2C_CLIENT_END) addrs)"
  have "x \<in> set xs \<longleftrightarrow> (case find (\<lambda>a. a = x) xs of None \<Rightarrow> False | Some a \<Rightarrow> True)" for x :: u16 and xs
    by (induction xs) auto
  then have "probes_in_order ?new (\<lambda>a. a = 0x50) (\<lambda>_. True)" unfolding probes_in_order_def by blast
  from at24_probe_order [OF this] show ?thesis by simp
qed

end
