(* ===== verification/EEPROM_Bus.thy ===== *)
theory EEPROM_Bus
  imports AT24_Props I2C_Props
begin

text \<open>
  The EEPROM driver on the S3C2440 bus: what a read or a write of the EEPROM's file puts on the two
  wires. Between the two drivers is the I2C core of the kernel, which turns each SMBus call into one
  transfer (\<open>Documentation/i2c/smbus-protocol\<close>); it is a parameter, with what it promises as
  a hypothesis.
\<close>

section \<open>The I2C core\<close>

text \<open>
  The protocols "I2C Block Read" (a write of the command, then a read) and "Write Byte Data" (a
  write of the command and the byte) as messages.
\<close>

definition block_read_msgs :: "u16 \<Rightarrow> u8 \<Rightarrow> u8 \<Rightarrow> i2c_msg list" where
  "block_read_msgs addr command len =
     [\<lparr>msg_addr = addr, msg_flags = 0, msg_len = 1, msg_buf = [command]\<rparr>,
      \<lparr>msg_addr = addr, msg_flags = I2C_M_RD, msg_len = ucast len, msg_buf = replicate (unat len) 0\<rparr>]"

definition write_byte_msgs :: "u16 \<Rightarrow> u8 \<Rightarrow> u8 \<Rightarrow> i2c_msg list" where
  "write_byte_msgs addr command b =
     [\<lparr>msg_addr = addr, msg_flags = 0, msg_len = 2, msg_buf = [command, b]\<rparr>]"

text \<open>The adapter as the probe function leaves it: two attempts.\<close>

definition bus_xfer :: "(nat \<Rightarrow> xfer_env) \<Rightarrow> hw \<Rightarrow> s3c24xx_i2c \<Rightarrow> i2c_msg list \<Rightarrow> fault + (int \<times> s3c24xx_i2c)" where
  "bus_xfer envs hw s ms = s3c24xx_i2c_xfer 2 0 envs hw s ms (int (length ms))"

text \<open>
  What the core promises: up to 32 bytes, a call whose transfer succeeds returns the number of
  bytes and the bytes of the second message; a byte that could be transferred is written.
\<close>

definition core_reads :: "s3c24xx_i2c smbus \<Rightarrow> (s3c24xx_i2c \<Rightarrow> i2c_msg list \<Rightarrow> fault + (int \<times> s3c24xx_i2c)) \<Rightarrow> u16 \<Rightarrow> bool" where
  "core_reads sm xfer addr \<longleftrightarrow> (\<forall>s command len s'. 0 < len \<longrightarrow> len \<le> 32 \<longrightarrow>
     xfer s (block_read_msgs addr command len) = Inr (2, s') \<longrightarrow>
     sm_read sm s command len = ((int (unat len), msg_buf (msgs s' ! 1)), s'))"

definition core_writes :: "s3c24xx_i2c smbus \<Rightarrow> (s3c24xx_i2c \<Rightarrow> i2c_msg list \<Rightarrow> fault + (int \<times> s3c24xx_i2c)) \<Rightarrow> u16 \<Rightarrow> bool" where
  "core_writes sm xfer addr \<longleftrightarrow> (\<forall>s command b s'.
     xfer s (write_byte_msgs addr command b) = Inr (1, s') \<longrightarrow> sm_write sm s command b = (0, s'))"

text \<open>A bus on which everything goes well, for transfers of up to \<open>n\<close> bytes.\<close>

definition good_bus :: "(nat \<Rightarrow> xfer_env) \<Rightarrow> hw \<Rightarrow> nat \<Rightarrow> bool" where
  "good_bus envs hw n \<longleftrightarrow> acked hw \<and> (\<forall>k. \<not> has (hw IICSTAT k) IICSTAT_BUSBUSY) \<and>
     clock_ok (ktime (envs 0)) \<and> 19 \<le> fuel (envs 0) \<and> n + 3 \<le> nirq (envs 0)"

definition bus_ready :: "s3c24xx_i2c \<Rightarrow> bool" where
  "bus_ready s \<longleftrightarrow> \<not> suspended s \<and> \<not> has (quirks s) QUIRK_POLL"

lemma bus_xfer_ok:
  assumes "bus_ready s" "good_bus envs hw n" "transfer_ok ms" "irqs_needed ms \<le> n + 3"
  shows "\<exists>s'. bus_xfer envs hw s ms = Inr (int (length ms), s') \<and> bus_ready s' \<and>
    msgs s' = deliver hw (nreads s IICDS) ms \<and> advance s (wire ms) (rx_count ms) s'"
proof -
  let ?s = "emit ClkEnable s"
  have "good_env (envs 0) ms" "bus_free hw ?s"
    using assms(2,4) by (auto simp: good_bus_def good_env_def bus_free_def intro: exI [of _ 0])
  then obtain t where t: "s3c24xx_i2c_doxfer (envs 0) hw ?s ms (int (length ms)) = Inr (int (length ms), t)"
      "msgs t = deliver hw (nreads s IICDS) ms" "advance ?s (wire ms) (rx_count ms) t"
    using doxfer_transfer [of ?s hw ms "envs 0"] assms(1-3) by (auto simp: bus_ready_def good_bus_def)
  have "int (length ms) \<noteq> - EAGAIN" by simp
  then have "bus_xfer envs hw s ms = Inr (int (length ms), emit ClkDisable t)"
    using t(1) by (simp add: bus_xfer_def s3c24xx_i2c_xfer_def eval_nat_numeral)
  then show ?thesis using t(2,3) assms(1) by (auto simp: advance_def bus_ready_def)
qed

section \<open>One SMBus call\<close>

text \<open>The first byte of a message to the device: its address and the direction.\<close>

definition sla :: "u16 \<Rightarrow> u16 \<Rightarrow> u8" where
  "sla addr dir = addr_byte \<lparr>msg_addr = addr, msg_flags = dir, msg_len = 0, msg_buf = []\<rparr>"

lemma addr_byte_sla: "addr_byte m = sla (msg_addr m) (msg_flags m)"
  by (simp add: addr_byte_def sla_def start_bits_def)

lemma length_rx [simp]: "length (rx_bytes hw n m) = m"
  by (induction m arbitrary: n) simp_all

lemma rx_bytes_append: "rx_bytes hw n k @ rx_bytes hw (n + k) m = rx_bytes hw n (k + m)"
proof (induction k arbitrary: n)
  case (Suc k)
  from Suc.IH [of "Suc n"] show ?case by simp
qed simp

lemma block_read_facts:
  "transfer_ok (block_read_msgs addr c len)" "length (block_read_msgs addr c len) = 2"
  "irqs_needed (block_read_msgs addr c len) = unat len + 3" "rx_count (block_read_msgs addr c len) = unat len"
  "wire (block_read_msgs addr c len) = [sla addr 0, c, sla addr I2C_M_RD]"
  "msg_buf (deliver hw n (block_read_msgs addr c len) ! 1) = rx_bytes hw n (unat len)"
proof -
  have "unat len < 2 ^ 8" using unsigned_less [of len, where ?'a = nat] by simp
  then have "unat len < 2 ^ 16" by simp
  then have len: "unat (ucast len :: u16) = unat len" by (simp add: unsigned_ucast_eq take_bit_nat_eq_self)
  show "transfer_ok (block_read_msgs addr c len)" "length (block_read_msgs addr c len) = 2"
    "irqs_needed (block_read_msgs addr c len) = unat len + 3" "rx_count (block_read_msgs addr c len) = unat len"
    "wire (block_read_msgs addr c len) = [sla addr 0, c, sla addr I2C_M_RD]"
    "msg_buf (deliver hw n (block_read_msgs addr c len) ! 1) = rx_bytes hw n (unat len)"
    by (simp_all add: len block_read_msgs_def transfer_ok_def plain_write_def plain_read_def irqs_needed_def
        rx_count_def wire_def addr_byte_sla tx_bytes_def deliver_def fill_def overwrite_def i2c_consts)
qed

lemma core_read_call:
  assumes core: "core_reads sm (bus_xfer envs hw) addr" and s: "bus_ready s" and bus: "good_bus envs hw (unat len)"
    and len: "0 < len" "len \<le> 32"
  shows "\<exists>s'. sm_read sm s c len = ((int (unat len), rx_bytes hw (nreads s IICDS) (unat len)), s') \<and>
    bus_ready s' \<and> advance s [sla addr 0, c, sla addr I2C_M_RD] (unat len) s'"
proof -
  let ?ms = "block_read_msgs addr c len"
  obtain s' where s': "bus_xfer envs hw s ?ms = Inr (2, s')" "bus_ready s'"
      "msgs s' = deliver hw (nreads s IICDS) ?ms" "advance s (wire ?ms) (rx_count ?ms) s'"
    using bus_xfer_ok [OF s bus, of ?ms] by (auto simp: block_read_facts)
  then have "sm_read sm s c len = ((int (unat len), msg_buf (msgs s' ! 1)), s')"
    using core len unfolding core_reads_def by blast
  then show ?thesis using s' by (auto simp: block_read_facts simp del: One_nat_def)
qed

lemma write_byte_facts:
  "transfer_ok (write_byte_msgs addr c b)" "length (write_byte_msgs addr c b) = 1"
  "irqs_needed (write_byte_msgs addr c b) = 3" "rx_count (write_byte_msgs addr c b) = 0"
  "wire (write_byte_msgs addr c b) = [sla addr 0, c, b]"
  by (simp_all add: write_byte_msgs_def transfer_ok_def plain_write_def irqs_needed_def rx_count_def wire_def
      addr_byte_sla tx_bytes_def i2c_consts)

lemma core_write_call:
  assumes "core_writes sm (bus_xfer envs hw) addr" "bus_ready s" "good_bus envs hw n"
  shows "\<exists>s'. sm_write sm s c b = (0, s') \<and> bus_ready s' \<and> advance s [sla addr 0, c, b] 0 s'"
proof -
  obtain s' where s': "bus_xfer envs hw s (write_byte_msgs addr c b) = Inr (1, s')" "bus_ready s'"
      "advance s [sla addr 0, c, b] 0 s'"
    using bus_xfer_ok [OF assms(2,3), of "write_byte_msgs addr c b"] by (auto simp: write_byte_facts)
  then have "sm_write sm s c b = (0, s')" using assms(1) unfolding core_writes_def by blast
  with s' show ?thesis by blast
qed

section \<open>A read of the file\<close>

text \<open>Where the requests of a read of \<open>n\<close> bytes at \<open>a\<close> begin: at \<open>a\<close>, and at each page after it.\<close>

function page_chunks :: "nat \<Rightarrow> nat \<Rightarrow> nat \<Rightarrow> nat list" where
  "page_chunks p a n =
     (if n = 0 \<or> p = 0 then []
      else a # page_chunks p (a + min (p - a mod p) n) (n - min (p - a mod p) n))"
  by pat_completeness auto
termination
  by (relation "measure (\<lambda>(_, _, n). n)") auto

declare page_chunks.simps [simp del]

lemma page_chunks_0 [simp]: "page_chunks p a 0 = []"
  by (subst page_chunks.simps) simp

definition read_requests :: "u16 \<Rightarrow> nat list \<Rightarrow> u8 list" where
  "read_requests addr cs = concat (map (\<lambda>c. [sla addr 0, of_nat c, sla addr I2C_M_RD]) cs)"

lemma ucast_of_nat_u8: "ucast (of_nat a :: u32) = (of_nat a :: u8)"
  by (simp add: word_unat_eq_iff u8_command unsigned_of_nat take_bit_eq_mod mod_mod_cancel)

lemma bus_read_once:
  assumes core: "core_reads sm (bus_xfer envs hw) addr" and s: "bus_ready s" and bus: "good_bus envs hw p"
    and m: "0 < m" "m \<le> p" "p \<le> 32" "m \<le> length tmp"
  shows "\<exists>s'. read_retry k sm s (of_nat a) (of_nat m) tmp =
      Inr (of_nat m, s', overwrite tmp 0 (rx_bytes hw (nreads s IICDS) m)) \<and>
    bus_ready s' \<and> advance s (read_requests addr [a]) m s'"
proof -
  let ?len = "ucast (of_nat m :: u32) :: u8"
  have len: "unat ?len = m" "0 < ?len" "?len \<le> 32"
    using m by (simp_all add: u8_command word_less_nat_alt word_le_nat_alt)
  have "good_bus envs hw (unat ?len)" using bus m(2) len(1) by (simp add: good_bus_def)
  from core_read_call [OF core s this len(2,3), of "of_nat a"] obtain s' where
    s': "sm_read sm s (of_nat a) ?len = ((int m, rx_bytes hw (nreads s IICDS) m), s')" "bus_ready s'"
      "advance s (read_requests addr [a]) m s'"
    by (auto simp: len(1) read_requests_def)
  have "(of_nat m :: u32) \<noteq> 0" using m unat_of_nat_u32 [of m] by auto
  then have "read_retry k sm s (of_nat a) (of_nat m) tmp =
      Inr (of_nat m, s', overwrite tmp 0 (rx_bytes hw (nreads s IICDS) m))"
    using s'(1) m(4) by (cases k) (simp_all add: read_once_def store_def ucast_of_nat_u8)
  with s' show ?thesis by blast
qed

text \<open>The loop with \<open>k\<close> bytes done, as in \<open>read_loop_ok\<close>, with what it puts on the bus.\<close>

lemma bus_read_loop:
  assumes core: "core_reads sm (bus_xfer envs hw) addr" and bus: "good_bus envs hw p"
    and user: "\<forall>off n. off + n \<le> N \<longrightarrow> uncopied off n = 0" and p: "0 < p" "p \<le> 32" and pos: "a + N + p < 2 ^ 31"
  shows "k \<le> N \<Longrightarrow> N - k < rounds \<Longrightarrow> length tmp = p \<Longrightarrow> length ubuf = N \<Longrightarrow> bus_ready s \<Longrightarrow>
    \<exists>s'. read_loop rounds sm uncopied (int p) (int a) (of_nat N) (of_nat k) s tmp ubuf =
        Inr (int N, s', take k ubuf @ rx_bytes hw (nreads s IICDS) (N - k)) \<and> bus_ready s' \<and>
      advance s (read_requests addr (page_chunks p (a + k) (N - k))) (N - k) s'"
proof (induction rounds arbitrary: k s tmp ubuf)
  case (Suc rounds)
  have bounds: "N < 2 ^ 31" "k < 2 ^ 31" using pos Suc.prems(1) by simp_all
  have sint_k: "sint (of_nat k :: u32) = int k" using bounds(2) by (rule sint_of_nat_u32)
  show ?case
  proof (cases "k < N")
    case False
    then have "k = N" using Suc.prems(1) by simp
    then show ?thesis using Suc.prems sint_k by (simp add: read_requests_def)
  next
    case True
    define m where "m = min (p - (a + k) mod p) (N - k)"
    have lt: "(of_nat k :: u32) < of_nat N"
      using True bounds by (simp add: word_less_nat_alt unat_of_nat_u32)
    have m: "0 < m" "m \<le> p" "m \<le> length tmp" "k + m \<le> N" using p True Suc.prems(3) by (auto simp: m_def)
    have addr: "word_of_int (int a + sint (of_nat k :: u32)) = (of_nat (a + k) :: u32)"
      unfolding sint_k by (simp flip: of_nat_add)
    have len: "chunk_len (int p) (of_nat (a + k)) (of_nat k) (of_nat N) = of_nat m"
      unfolding m_def by (rule chunk_len_page) (use p pos True in simp_all)
    let ?bs = "rx_bytes hw (nreads s IICDS) m"
    obtain t where t: "read_retry 5 sm s (of_nat (a + k)) (of_nat m) tmp = Inr (of_nat m, t, overwrite tmp 0 ?bs)"
        "bus_ready t" "advance s (read_requests addr [a + k]) m t"
      using bus_read_once [OF core Suc.prems(5) bus m(1,2) p(2) m(3)] by blast
    have "unat (of_nat m :: u32) = m" by (rule unat_of_nat_u32) (use m(2) p(2) in simp)
    then have ne: "\<not> (of_nat m :: u32) \<le> 0" using m(1) by (metis unat_0 word_le_0_iff less_irrefl)
    have tk: "take m (overwrite tmp 0 ?bs) = ?bs" using take_overwrite [of 0 ?bs tmp] m(3) by simp
    have copy: "copy_to_user uncopied ubuf (unat (of_nat k :: u32)) (overwrite tmp 0 ?bs) (unat (of_nat m :: u32)) =
        Inr (0, overwrite ubuf k ?bs)"
      using copy_to_user_all [of uncopied k m "overwrite tmp 0 ?bs" ubuf] user m p(2) bounds Suc.prems(3,4)
      by (simp add: unat_of_nat_u32 tk)
    have rounds: "N - (k + m) < rounds" using m Suc.prems(2) by linarith
    have lens: "length (overwrite tmp 0 ?bs) = p" "length (overwrite ubuf k ?bs) = N"
      using m Suc.prems(3,4) by simp_all
    obtain e where e: "read_loop rounds sm uncopied (int p) (int a) (of_nat N) (of_nat (k + m)) t
          (overwrite tmp 0 ?bs) (overwrite ubuf k ?bs) =
        Inr (int N, e, take (k + m) (overwrite ubuf k ?bs) @ rx_bytes hw (nreads t IICDS) (N - (k + m)))"
        "bus_ready e" "advance t (read_requests addr (page_chunks p (a + (k + m)) (N - (k + m)))) (N - (k + m)) e"
      using Suc.IH [OF m(4) rounds lens t(2)] by blast
    have chunks: "page_chunks p (a + k) (N - k) = (a + k) # page_chunks p (a + (k + m)) (N - (k + m))"
      using True p(1) by (subst page_chunks.simps) (simp add: add.assoc m_def)
    have got: "take (k + m) (overwrite ubuf k ?bs) @ rx_bytes hw (nreads t IICDS) (N - (k + m)) =
        take k ubuf @ rx_bytes hw (nreads s IICDS) (N - k)"
      using take_overwrite [of k ?bs ubuf] m(4) Suc.prems(4) t(3)
        rx_bytes_append [of hw "nreads s IICDS" m "N - (k + m)"]
      by (simp add: advance_def)
    have "advance s (read_requests addr (page_chunks p (a + k) (N - k))) (N - k) e"
      using advance_trans [OF t(3) e(3)] m(4) by (simp add: chunks read_requests_def)
    moreover have "read_loop (Suc rounds) sm uncopied (int p) (int a) (of_nat N) (of_nat k) s tmp ubuf =
        Inr (int N, e, take k ubuf @ rx_bytes hw (nreads s IICDS) (N - k))"
      using lt addr len t(1) ne copy e(1) got by (simp add: Let_def)
    ultimately show ?thesis using e(2) by blast
  qed
qed simp

text \<open>C6: The two drivers together: a read of the EEPROM's file puts on the bus one request per page it
  touches (the device's address, the cell, the device's address again for reading), in order and
  nothing else; the user gets exactly the bytes the bus delivered, in order, and the bus is left
  ready for the next call.\<close>
theorem eeprom_read_on_bus:
  assumes core: "core_reads sm (bus_xfer envs hw) addr" and s: "bus_ready s"
    and bus: "good_bus envs hw (unat (page_size chip))"
    and user: "\<forall>off n. off + n \<le> N \<longrightarrow> uncopied off n = 0"
    and page: "0 < unat (page_size chip)" "unat (page_size chip) \<le> 32" "length tmp = unat (page_size chip)"
    and pos: "a < unat (byte_len chip)" "a + N + unat (page_size chip) < 2 ^ 31"
    and buf: "length ubuf = N" "N < rounds"
  shows "\<exists>s'. at24_read rounds sm uncopied (Some tmp) chip ubuf (of_nat N) (int a) s =
      Inr (int N, s', rx_bytes hw (nreads s IICDS) N, int (a + N)) \<and> bus_ready s' \<and>
    ds_writes s' = ds_writes s @ read_requests addr (page_chunks (unat (page_size chip)) a N)"
proof -
  obtain s' where s': "read_loop rounds sm uncopied (int (unat (page_size chip))) (int a) (of_nat N) (of_nat 0) s tmp ubuf =
        Inr (int N, s', take 0 ubuf @ rx_bytes hw (nreads s IICDS) (N - 0))" "bus_ready s'"
      "advance s (read_requests addr (page_chunks (unat (page_size chip)) (a + 0) (N - 0))) (N - 0) s'"
    using bus_read_loop [OF core bus user page(1,2) pos(2), of 0 rounds tmp ubuf s] page(3) buf s by auto
  then show ?thesis
    using pos(1) page(1) by (simp add: at24_read_def advance_def del: of_nat_unat)
qed

section \<open>A write to the file\<close>

lemma write_retry_first: "sm_write sm d c b = (0, d') \<Longrightarrow> write_retry k sm d c b = (0, d')"
  by (cases k) simp_all

lemma bus_write_loop:
  assumes core: "core_writes sm (bus_xfer envs hw) addr" and bus: "good_bus envs hw n"
    and user: "\<forall>j < N. user j \<noteq> None" and N: "N < 2 ^ 31"
  shows "j \<le> N \<Longrightarrow> bus_ready s \<Longrightarrow>
    \<exists>s'. write_loop sm user (int a) (of_nat N) (of_nat j) s = (int N, of_nat N, s') \<and> bus_ready s' \<and>
      advance s (concat (map (\<lambda>k. [sla addr 0, of_nat (a + k), the (user k)]) [j..<N])) 0 s'"
proof (induction "N - j" arbitrary: j s)
  case 0
  then have "j = N" by simp
  then show ?case
    using 0 N by (subst write_loop.simps) (simp add: sint_of_nat_u32)
next
  case (Suc d)
  then have j: "j < N" "j < 2 ^ 31" using N by simp_all
  have lt: "(of_nat j :: u32) < of_nat N" using j N by (simp add: word_less_nat_alt unat_of_nat_u32)
  obtain b where b: "user j = Some b" using user j(1) by blast
  have at: "user (unat (of_nat j :: u32)) = Some b" using b j(2) by (simp add: unat_of_nat_u32)
  obtain t where t: "sm_write sm s (of_nat (a + j)) b = (0, t)" "bus_ready t"
      "advance s [sla addr 0, of_nat (a + j), b] 0 t"
    using core_write_call [OF core Suc.prems(2) bus] by blast
  have cmd: "word_of_int (int a + sint (of_nat j :: u32)) = (of_nat (a + j) :: u8)"
    unfolding sint_of_nat_u32 [OF j(2)] by (simp flip: of_nat_add)
  have wr: "write_retry 5 sm s (word_of_int (int a + sint (of_nat j :: u32))) b = (0, t)"
    unfolding cmd using t(1) by (rule write_retry_first)
  have left: "d = N - (j + 1)" "j + 1 \<le> N" using Suc.hyps(2) j(1) by simp_all
  obtain e where e: "write_loop sm user (int a) (of_nat N) (of_nat (j + 1)) t = (int N, of_nat N, e)" "bus_ready e"
      "advance t (concat (map (\<lambda>k. [sla addr 0, of_nat (a + k), the (user k)]) [j + 1..<N])) 0 e"
    using Suc.hyps(1) [OF left t(2)] by blast
  have "write_loop sm user (int a) (of_nat N) (of_nat j) s = (int N, of_nat N, e)"
    using lt at wr e(1) by (subst write_loop.simps) (simp add: add.commute)
  then show ?case
    using e(2) advance_trans [OF t(3) e(3)] b j(1) by (simp add: upt_conv_Cons)
qed

text \<open>C7: A write to the EEPROM's file is, on the bus, one message per byte (the device's address, the
  cell, the byte), in order and nothing else; if every one is acknowledged the whole write succeeds
  and the position advances.\<close>
theorem eeprom_write_on_bus:
  assumes "core_writes sm (bus_xfer envs hw) addr" "bus_ready s" "good_bus envs hw n"
    and "\<forall>j < N. user j \<noteq> None" "N < 2 ^ 31"
  shows "\<exists>s'. at24_write sm user (of_nat N) (int a) s = (int N, s', int (a + N)) \<and> bus_ready s' \<and>
    ds_writes s' = ds_writes s @ concat (map (\<lambda>k. [sla addr 0, of_nat (a + k), the (user k)]) [0..<N])"
proof -
  obtain s' where s': "write_loop sm user (int a) (of_nat N) (of_nat 0) s = (int N, of_nat N, s')" "bus_ready s'"
      "advance s (concat (map (\<lambda>k. [sla addr 0, of_nat (a + k), the (user k)]) [0..<N])) 0 s'"
    using bus_write_loop [OF assms(1,3,4,5), of 0 s a] assms(2) by blast
  have "at24_write sm user (of_nat N) (int a) s = (int N, s', int (a + N))"
    using s'(1) by (simp add: at24_write_def sint_of_nat_u32 [OF assms(5)])
  with s'(2,3) show ?thesis unfolding advance_def by blast
qed

section \<open>An example\<close>

text \<open>A core that behaves as documented, over the controller \<open>hw_ok\<close>, with the EEPROM at 0x40.\<close>

definition example_core :: "(nat \<Rightarrow> xfer_env) \<Rightarrow> hw \<Rightarrow> u16 \<Rightarrow> s3c24xx_i2c smbus" where
  "example_core envs hw addr =
     \<lparr>sm_read = \<lambda>s c len. (case bus_xfer envs hw s (block_read_msgs addr c len) of
          Inl _ \<Rightarrow> ((- EIO, []), s)
        | Inr (r, t) \<Rightarrow> (if r = 2 then ((int (unat len), msg_buf (msgs t ! 1)), t) else ((- EIO, []), t))),
      sm_write = \<lambda>s c b. (case bus_xfer envs hw s (write_byte_msgs addr c b) of
          Inl _ \<Rightarrow> (- EIO, s) | Inr (r, t) \<Rightarrow> (if r = 1 then 0 else - EIO, t))\<rparr>"

definition env_bus :: xfer_env where
  "env_bus = \<lparr>nirq = 11, ktime = (\<lambda>j. 1000 * int j), fuel = 20\<rparr>"

lemma example_core_ok:
  "core_reads (example_core envs hw addr) (bus_xfer envs hw) addr"
  "core_writes (example_core envs hw addr) (bus_xfer envs hw) addr"
  by (simp_all add: core_reads_def core_writes_def example_core_def)

lemma example_bus: "good_bus (\<lambda>_. env_bus) hw_ok 8" "bus_ready i2c0"
  by (auto simp: good_bus_def env_bus_def bus_ready_def hw_ok_def acked_def i2c0_def clock_ok_1000 i2c_consts)

lemma sla_40: "sla 0x40 0 = 0x80" "sla 0x40 I2C_M_RD = 0x81"
  by (simp_all add: sla_def addr_byte_def start_bits_def i2c_consts)

theorem eeprom_read_on_bus_witness:
  "\<exists>s'. at24_read 6 (example_core (\<lambda>_. env_bus) hw_ok 0x40) (\<lambda>_ _. 0) (Some (replicate 8 0)) chip_24c02
      (replicate 5 0) 5 6 i2c0 = Inr (5, s', [64, 65, 66, 67, 68], 11) \<and>
    ds_writes s' = [0x80, 6, 0x81, 0x80, 8, 0x81]"
proof -
  have c: "page_chunks 8 6 5 = [6, 8]" by (simp add: page_chunks.simps)
  have r: "rx_bytes hw_ok 0 5 = [64, 65, 66, 67, 68]" by (simp add: hw_ok_def)
  have z: "ds_writes i2c0 = []" "nreads i2c0 IICDS = 0" by (simp_all add: i2c0_def ds_writes_def)
  have "\<exists>s'. at24_read 6 (example_core (\<lambda>_. env_bus) hw_ok 0x40) (\<lambda>_ _. 0) (Some (replicate 8 0)) chip_24c02
      (replicate 5 0) (of_nat 5) (int 6) i2c0 = Inr (int 5, s', rx_bytes hw_ok (nreads i2c0 IICDS) 5, int (6 + 5)) \<and>
      bus_ready s' \<and> ds_writes s' = ds_writes i2c0 @ read_requests 0x40 (page_chunks (unat (page_size chip_24c02)) 6 5)"
    by (rule eeprom_read_on_bus [OF example_core_ok(1) example_bus(2)])
      (simp_all add: chip_24c02_def example_bus)
  then show ?thesis by (auto simp: z r c chip_24c02_def read_requests_def sla_40 simp del: rx_bytes_numeral)
qed

theorem eeprom_write_on_bus_witness:
  "\<exists>s'. at24_write (example_core (\<lambda>_. env_bus) hw_ok 0x40) (\<lambda>k. Some (of_nat k + 7)) 2 255 i2c0 = (2, s', 257) \<and>
     ds_writes s' = [0x80, 255, 7, 0x80, 0, 8]"
proof -
  have z: "ds_writes i2c0 = []" by (simp add: i2c0_def ds_writes_def)
  have "\<exists>s'. at24_write (example_core (\<lambda>_. env_bus) hw_ok 0x40) (\<lambda>k. Some (of_nat k + 7)) (of_nat 2) (int 255) i2c0 =
      (int 2, s', int (255 + 2)) \<and> bus_ready s' \<and>
      ds_writes s' = ds_writes i2c0 @ concat (map (\<lambda>k. [sla 0x40 0, of_nat (255 + k), the (Some (of_nat k + 7))]) [0..<2])"
    by (rule eeprom_write_on_bus [OF example_core_ok(2) example_bus(2,1)]) simp_all
  moreover have "(256 :: u8) = 0" by simp
  ultimately show ?thesis by (auto simp: z sla_40 upt_conv_Cons)
qed

end
