(* ===== verification/Ramblock.thy ===== *)
theory Ramblock
  imports Kernel
begin

text \<open>
  The RAM disk, \<open>ram_block/ramblock.c\<close>: the request function, the geometry, and the module hooks.

  A request of the block layer is a position in sectors, a direction and a list of memory
  segments. \<open>blk_rq_cur_bytes\<close> and \<open>bio_data\<close> are the first segment; \<open>__blk_end_request_cur\<close> drops it
  and moves the position on, and is false when it was the last. \<open>blk_fetch_request\<close> takes the
  next request of the queue.
\<close>

definition RAMBLOCK_SIZE :: u32 where "RAMBLOCK_SIZE = 0x400 * 0x400"

record request =
  rq_pos :: u64
  rq_write :: bool
  rq_segs :: "u8 list list"

text \<open>The buffer, and the counters of the log messages, an \<open>int\<close> each, which wrap around.\<close>

record ramblock =
  ramblock_buf :: "u8 list"
  rcnt :: u32
  wcnt :: u32

section \<open>The request function\<close>

text \<open>
  One round of the loop: \<open>blk_rq_pos(req) << 9\<close> is assigned to an \<open>unsigned long\<close>, the sum of
  the check is one too. A bad access leaves the segment as it is. The result is the disk and
  the segment.
\<close>

definition access :: "ramblock \<Rightarrow> bool \<Rightarrow> u64 \<Rightarrow> u8 list \<Rightarrow> fault + (ramblock \<times> u8 list)" where
  "access rb wr pos seg =
     (let offset = ucast (push_bit 9 pos) :: u32;
          len = of_nat (length seg) :: u32
      in if len + offset > RAMBLOCK_SIZE then Inr (rb, seg)
         else if \<not> wr
         then ebind (load (ramblock_buf rb) (unat offset) (unat len)) (\<lambda>seg.
                Inr (rb\<lparr>rcnt := rcnt rb + 1\<rparr>, seg))
         else ebind (store (ramblock_buf rb) (unat offset) seg) (\<lambda>buf.
                Inr (rb\<lparr>ramblock_buf := buf, wcnt := wcnt rb + 1\<rparr>, seg)))"

text \<open>A request: all its segments, ended with error 0. The result has the segments as the block layer gets them back.\<close>

primrec serve_segs :: "ramblock \<Rightarrow> bool \<Rightarrow> u64 \<Rightarrow> u8 list list \<Rightarrow> fault + (ramblock \<times> u8 list list)" where
  "serve_segs rb wr pos [] = Inr (rb, [])"
| "serve_segs rb wr pos (seg # segs) =
     ebind (access rb wr pos seg) (\<lambda>(rb, seg).
       ebind (serve_segs rb wr (pos + of_nat (length seg div 512)) segs) (\<lambda>(rb, segs).
         Inr (rb, seg # segs)))"

definition serve :: "ramblock \<Rightarrow> request \<Rightarrow> fault + (ramblock \<times> int \<times> u8 list list)" where
  "serve rb req = ebind (serve_segs rb (rq_write req) (rq_pos req) (rq_segs req)) (\<lambda>(rb, segs).
     Inr (rb, 0, segs))"

primrec do_ramblock_request ::
  "ramblock \<Rightarrow> request list \<Rightarrow> fault + (ramblock \<times> (int \<times> u8 list list) list)" where
  "do_ramblock_request rb [] = Inr (rb, [])"
| "do_ramblock_request rb (req # q) =
     ebind (serve rb req) (\<lambda>(rb, done).
       ebind (do_ramblock_request rb q) (\<lambda>(rb, dones). Inr (rb, done # dones)))"

section \<open>Geometry and module hooks\<close>

record hd_geometry =
  heads :: u8
  sectors :: u8
  cylinders :: u16

definition ramblock_getgeo :: hd_geometry where
  "ramblock_getgeo = \<lparr>heads = 2, sectors = ucast (RAMBLOCK_SIZE div 2 div 32 div 512), cylinders = 32\<rparr>"

datatype rb_res = Major | Gendisk | Queue | Buffer | Disk

record rb_env =
  blkdev_ret :: int
  disk_ok :: bool
  queue_ok :: bool
  kzalloc_buf :: bool

text \<open>\<open>kzalloc\<close> clears the memory.\<close>

definition ramblock_init :: "rb_env \<Rightarrow> int \<times> rb_res event list" where
  "ramblock_init env =
     (if blkdev_ret env \<le> 0 then (blkdev_ret env, [])
      else if \<not> disk_ok env then (- ENOMEM, [Acq Major, Rel Major])
      else if \<not> queue_ok env then (- ENOMEM, [Acq Major, Acq Gendisk, Rel Gendisk, Rel Major])
      else if \<not> kzalloc_buf env
      then (- ENOMEM, [Acq Major, Acq Gendisk, Acq Queue, Rel Queue, Rel Gendisk, Rel Major])
      else (0, [Acq Major, Acq Gendisk, Acq Queue, Acq Buffer, Acq Disk]))"

definition ramblock_exit :: "rb_res event list" where
  "ramblock_exit = [Rel Disk, Rel Queue, Rel Gendisk, Rel Major, Rel Buffer]"

definition set_capacity :: u32 where "set_capacity = RAMBLOCK_SIZE div 512"

definition fresh_disk :: ramblock where
  "fresh_disk = \<lparr>ramblock_buf = replicate (unat RAMBLOCK_SIZE) 0, rcnt = 0, wcnt = 0\<rparr>"

section \<open>Requests inside the disk\<close>

definition disk_ok_state :: "ramblock \<Rightarrow> bool" where
  "disk_ok_state rb \<longleftrightarrow> length (ramblock_buf rb) = 2 ^ 20"

text \<open>What the block layer guarantees: whole sectors, inside the capacity.\<close>

definition in_range :: "nat \<Rightarrow> u8 list list \<Rightarrow> bool" where
  "in_range p segs \<longleftrightarrow> list_all (\<lambda>seg. 512 dvd length seg) segs \<and> 512 * p + length (concat segs) \<le> 2 ^ 20"

lemma offset_in_range:
  assumes "p \<le> 2048"
  shows "unat (ucast (push_bit 9 (of_nat p :: u64)) :: u32) = 512 * p"
proof -
  have "push_bit 9 (of_nat p :: u64) = of_nat (512 * p)"
    by (simp add: push_bit_eq_mult mult.commute)
  then show ?thesis
    using assms by (simp only:) (simp add: unsigned_ucast_eq unsigned_of_nat take_bit_nat_eq_self take_bit_nat_less_exp min_def
        del: of_nat_mult)
qed

lemma access_in_range:
  assumes "p \<le> 2048" "512 * p + length seg \<le> 2 ^ 20" "disk_ok_state rb"
  shows "access rb wr (of_nat p) seg =
    (if wr then Inr (rb\<lparr>ramblock_buf := overwrite (ramblock_buf rb) (512 * p) seg, wcnt := wcnt rb + 1\<rparr>, seg)
     else Inr (rb\<lparr>rcnt := rcnt rb + 1\<rparr>, take (length seg) (drop (512 * p) (ramblock_buf rb))))"
proof -
  let ?off = "ucast (push_bit 9 (of_nat p :: u64)) :: u32"
  have off: "unat ?off = 512 * p" by (rule offset_in_range) (rule assms(1))
  have len: "unat (of_nat (length seg) :: u32) = length seg" using assms(2) by (simp add: unat_of_nat_u32)
  have "unat (of_nat (length seg) + ?off) = length seg + 512 * p"
    using off len assms(2) by (simp add: unat_word_ariths)
  then have "\<not> RAMBLOCK_SIZE < of_nat (length seg) + ?off"
    using assms(2) by (simp add: word_less_nat_alt RAMBLOCK_SIZE_def)
  then show ?thesis
    using off len assms(2,3) by (simp add: access_def Let_def load_def store_def disk_ok_state_def add.commute)
qed

end
