(* ===== verification/Ramblock_Props.thy ===== *)
theory Ramblock_Props
  imports Ramblock
begin

text \<open>
  The RAM disk against a flat byte array: requests inside the capacity are transfers of
  that array; what happens to requests outside it; the store contract; the module's life.
\<close>

section \<open>The flat array\<close>

text \<open>What a request does to a flat array: the new array, and the segments of the request.\<close>

primrec cut :: "'a list list \<Rightarrow> 'a list \<Rightarrow> 'a list list" where
  "cut [] xs = []"
| "cut (seg # segs) xs = take (length seg) xs # cut segs (drop (length seg) xs)"

definition flat_request :: "u8 list \<Rightarrow> bool \<Rightarrow> nat \<Rightarrow> u8 list list \<Rightarrow> u8 list \<times> u8 list list" where
  "flat_request mem wr p segs =
     (if wr then (overwrite mem (512 * p) (concat segs), segs)
      else (mem, cut segs (drop (512 * p) mem)))"

lemma in_range_Cons:
  assumes "in_range p (seg # segs)"
  shows "p \<le> 2048" "512 * p + length seg \<le> 2 ^ 20" "512 * (length seg div 512) = length seg"
    "in_range (p + length seg div 512) segs"
  using assms by (auto simp: in_range_def)

lemma overwrite_append:
  "a + length xs \<le> length mem \<Longrightarrow> overwrite (overwrite mem a xs) (a + length xs) ys = overwrite mem a (xs @ ys)"
  by (simp add: overwrite_def ac_simps)

lemma serve_segs_write:
  "in_range p segs \<Longrightarrow> disk_ok_state rb \<Longrightarrow> serve_segs rb True (of_nat p) segs =
    Inr (rb\<lparr>ramblock_buf := overwrite (ramblock_buf rb) (512 * p) (concat segs),
           wcnt := wcnt rb + of_nat (length segs)\<rparr>, segs)"
proof (induction segs arbitrary: p rb)
  case (Cons seg segs)
  note r = in_range_Cons [OF Cons.prems(1)]
  let ?rb = "rb\<lparr>ramblock_buf := overwrite (ramblock_buf rb) (512 * p) seg, wcnt := wcnt rb + 1\<rparr>"
  have rb: "disk_ok_state ?rb" using Cons.prems(2) r(2) by (simp add: disk_ok_state_def)
  have next_pos: "512 * (p + length seg div 512) = 512 * p + length seg" using r(3) by simp
  have "serve_segs ?rb True (of_nat (p + length seg div 512)) segs =
      Inr (?rb\<lparr>ramblock_buf := overwrite (ramblock_buf rb) (512 * p) (seg @ concat segs),
              wcnt := wcnt rb + 1 + of_nat (length segs)\<rparr>, segs)"
    unfolding Cons.IH [OF r(4) rb] next_pos
    using overwrite_append [of "512 * p" seg "ramblock_buf rb"] Cons.prems(2) r(2)
    by (simp add: disk_ok_state_def)
  then show ?case using access_in_range [OF r(1,2) Cons.prems(2)] by simp
qed simp

lemma serve_segs_read:
  "in_range p segs \<Longrightarrow> disk_ok_state rb \<Longrightarrow> serve_segs rb False (of_nat p) segs =
    Inr (rb\<lparr>rcnt := rcnt rb + of_nat (length segs)\<rparr>, cut segs (drop (512 * p) (ramblock_buf rb)))"
proof (induction segs arbitrary: p rb)
  case (Cons seg segs)
  note r = in_range_Cons [OF Cons.prems(1)]
  let ?rb = "rb\<lparr>rcnt := rcnt rb + 1\<rparr>" and ?seg = "take (length seg) (drop (512 * p) (ramblock_buf rb))"
  have rb: "disk_ok_state ?rb" using Cons.prems(2) by (simp add: disk_ok_state_def)
  have len: "length ?seg = length seg" using Cons.prems(2) r(2) by (simp add: disk_ok_state_def)
  have next_pos: "512 * (p + length seg div 512) = length seg + 512 * p" using r(3) by simp
  have "serve_segs ?rb False (of_nat (p + length seg div 512)) segs =
      Inr (?rb\<lparr>rcnt := rcnt rb + 1 + of_nat (length segs)\<rparr>, cut segs (drop (length seg) (drop (512 * p) (ramblock_buf rb))))"
    unfolding Cons.IH [OF r(4) rb] next_pos by simp
  then show ?case
    using access_in_range [OF r(1,2) Cons.prems(2)] len by (simp del: drop_drop length_take length_drop)
qed simp

text \<open>A request as the block layer builds it: whole sectors, inside the capacity it was told.\<close>

definition legal_request :: "request \<Rightarrow> bool" where
  "legal_request req \<longleftrightarrow> in_range (unat (rq_pos req)) (rq_segs req)"

lemma serve_flat:
  assumes "legal_request req" "disk_ok_state rb"
  shows "\<exists>rb'. serve rb req = Inr (rb', 0, snd (flat_request (ramblock_buf rb) (rq_write req)
      (unat (rq_pos req)) (rq_segs req))) \<and>
    ramblock_buf rb' = fst (flat_request (ramblock_buf rb) (rq_write req) (unat (rq_pos req)) (rq_segs req)) \<and>
    disk_ok_state rb'"
proof -
  have r: "in_range (unat (rq_pos req)) (rq_segs req)" using assms(1) by (simp add: legal_request_def)
  have pos: "of_nat (unat (rq_pos req)) = rq_pos req" by simp
  show ?thesis
    using serve_segs_write [OF r assms(2)] serve_segs_read [OF r assms(2)] r assms(2)
    unfolding pos
    by (cases "rq_write req") (auto simp: serve_def flat_request_def disk_ok_state_def in_range_def)
qed

text \<open>The abstract queue: one flat request after the other.\<close>

primrec flat_queue :: "u8 list \<Rightarrow> request list \<Rightarrow> u8 list \<times> (int \<times> u8 list list) list" where
  "flat_queue mem [] = (mem, [])"
| "flat_queue mem (req # q) =
     (let (mem, segs) = flat_request mem (rq_write req) (unat (rq_pos req)) (rq_segs req);
          (mem, dones) = flat_queue mem q
      in (mem, (0, segs) # dones))"

lemma queue_refines:
  "list_all legal_request q \<Longrightarrow> disk_ok_state rb \<Longrightarrow>
    \<exists>rb'. do_ramblock_request rb q = Inr (rb', snd (flat_queue (ramblock_buf rb) q)) \<and>
      ramblock_buf rb' = fst (flat_queue (ramblock_buf rb) q) \<and> disk_ok_state rb'"
proof (induction q arbitrary: rb)
  case (Cons req q)
  obtain rb1 where rb1: "serve rb req = Inr (rb1, 0, snd (flat_request (ramblock_buf rb) (rq_write req)
        (unat (rq_pos req)) (rq_segs req)))"
      "ramblock_buf rb1 = fst (flat_request (ramblock_buf rb) (rq_write req) (unat (rq_pos req)) (rq_segs req))"
      "disk_ok_state rb1"
    using serve_flat [of req rb] Cons.prems by auto
  obtain rb2 where rb2: "do_ramblock_request rb1 q = Inr (rb2, snd (flat_queue (ramblock_buf rb1) q))"
      "ramblock_buf rb2 = fst (flat_queue (ramblock_buf rb1) q)" "disk_ok_state rb2"
    using Cons.IH [of rb1] Cons.prems(1) rb1(3) by auto
  show ?case using rb1 rb2 by (simp add: Let_def split_def)
qed simp

text \<open>C3: The driver refines a flat array of a megabyte: any queue of requests inside the capacity is served
  without a fault, every request ends without an error, and the segments and the contents are
  those of the same transfers on a flat array.\<close>
theorem ramblock_refines_flat:
  assumes "list_all legal_request q" "disk_ok_state rb"
  shows "\<exists>rb'. do_ramblock_request rb q = Inr (rb', snd (flat_queue (ramblock_buf rb) q)) \<and>
    ramblock_buf rb' = fst (flat_queue (ramblock_buf rb) q) \<and> disk_ok_state rb'"
  using assms by (rule queue_refines)

text \<open>The last sector of a new disk, written and read back.\<close>

lemma fresh_ok: "disk_ok_state fresh_disk"
  by (simp add: disk_ok_state_def fresh_disk_def RAMBLOCK_SIZE_def)

theorem ramblock_refines_flat_witness:
  "\<exists>rb'. do_ramblock_request fresh_disk
     [\<lparr>rq_pos = 2047, rq_write = True, rq_segs = [replicate 512 7]\<rparr>,
      \<lparr>rq_pos = 2047, rq_write = False, rq_segs = [replicate 512 0]\<rparr>] =
    Inr (rb', [(0, [replicate 512 7]), (0, [replicate 512 7])]) \<and> disk_ok_state rb'"
proof -
  let ?q = "[\<lparr>rq_pos = 2047, rq_write = True, rq_segs = [replicate 512 (7 :: u8)]\<rparr>,
    \<lparr>rq_pos = 2047, rq_write = False, rq_segs = [replicate 512 0]\<rparr>]"
  have legal: "list_all legal_request ?q" by (simp add: legal_request_def in_range_def)
  have len: "length (replicate (unat RAMBLOCK_SIZE) (0 :: u8)) = 2 ^ 20"
    by (simp add: RAMBLOCK_SIZE_def)
  have "take 512 (drop (512 * 2047) (overwrite mem (512 * 2047) bs)) = bs"
    if "length mem = 2 ^ 20" "length bs = 512" for mem bs :: "u8 list"
    using that load_overwrite_same [of "512 * 2047" bs mem] by (simp add: load_def split: if_splits)
  from this [OF len] have "snd (flat_queue (ramblock_buf fresh_disk) ?q) =
      [(0, [replicate 512 7]), (0, [replicate 512 7])]"
    by (simp add: fresh_disk_def flat_request_def)
  then show ?thesis using ramblock_refines_flat [OF legal fresh_ok] by auto
qed


section \<open>Requests outside the disk\<close>

lemma offset_word: "ucast (push_bit 9 (pos :: u64)) = (of_nat (512 * unat pos) :: u32)"
proof -
  have "push_bit 9 pos = of_nat (512 * unat pos)"
    by (simp add: push_bit_eq_mult mult.commute)
  moreover have "ucast (of_nat n :: u64) = (of_nat n :: u32)" for n
    by (rule word_unat_eq_iff [THEN iffD2]) (simp add: unsigned_ucast_eq unsigned_of_nat take_bit_take_bit)
  ultimately show ?thesis by (simp only:)
qed

text \<open>A request that runs past the end of the disk (and below 4 GB) is reported to the block layer as
  done without an error: nothing is transferred, the data of a write is lost, and the memory
  of a read keeps whatever it held.\<close>
theorem bad_access_succeeds:
  assumes "2 ^ 20 < 512 * unat pos + length seg" "512 * unat pos + length seg < 2 ^ 32"
  shows "serve rb \<lparr>rq_pos = pos, rq_write = wr, rq_segs = [seg]\<rparr> = Inr (rb, 0, [seg])"
proof -
  have "unat (of_nat (length seg) + ucast (push_bit 9 pos) :: u32) = 512 * unat pos + length seg"
    unfolding offset_word using assms(2)
    by (simp add: unat_of_nat_u32 add.commute flip: of_nat_add del: of_nat_mult)
  then have "RAMBLOCK_SIZE < of_nat (length seg) + ucast (push_bit 9 pos)"
    using assms(1) by (simp add: word_less_nat_alt RAMBLOCK_SIZE_def)
  then show ?thesis by (simp add: serve_def access_def Let_def)
qed

theorem bad_access_succeeds_witness:
  "serve fresh_disk \<lparr>rq_pos = 2048, rq_write = True, rq_segs = [replicate 512 1]\<rparr> =
     Inr (fresh_disk, 0, [replicate 512 1])"
  by (rule bad_access_succeeds) simp_all

text \<open>C35: The bound is checked with 32 bit arithmetic: a request that starts just below 4 GB and
  crosses it passes the check, and the copy is outside the disk.\<close>
theorem bound_check_wraps:
  assumes "512 * unat pos < 2 ^ 32" "2 ^ 32 \<le> 512 * unat pos + length seg"
    "512 * unat pos + length seg \<le> 2 ^ 32 + 2 ^ 20" "length seg < 2 ^ 32" "disk_ok_state rb"
  shows "serve rb \<lparr>rq_pos = pos, rq_write = wr, rq_segs = [seg]\<rparr> = Inl OutOfBounds"
proof -
  have off: "unat (ucast (push_bit 9 pos) :: u32) = 512 * unat pos"
    unfolding offset_word by (rule unat_of_nat_u32) (rule assms(1))
  have len: "unat (of_nat (length seg) :: u32) = length seg"
    using assms(4) by (rule unat_of_nat_u32)
  have "(of_nat (length seg) + ucast (push_bit 9 pos) :: u32) = of_nat (512 * unat pos + length seg - 2 ^ 32)"
  proof -
    have "(of_nat (512 * unat pos + length seg) :: u32) = of_nat (512 * unat pos + length seg - 2 ^ 32)"
      using assms(2) by (simp add: word_of_nat_eq_iff take_bit_eq_mod le_mod_geq del: of_nat_add of_nat_mult)
    then show ?thesis unfolding offset_word by (simp add: add.commute flip: of_nat_add del: of_nat_mult)
  qed
  moreover have "unat (of_nat (512 * unat pos + length seg - 2 ^ 32) :: u32) = 512 * unat pos + length seg - 2 ^ 32"
    by (rule unat_of_nat_u32) (use assms(3) in simp)
  ultimately have "\<not> RAMBLOCK_SIZE < of_nat (length seg) + ucast (push_bit 9 pos)"
    using assms(3) by (simp add: word_less_nat_alt RAMBLOCK_SIZE_def)
  moreover have "load (ramblock_buf rb) (512 * unat pos) (length seg) = Inl OutOfBounds"
    using assms(2,5) by (simp add: load_def disk_ok_state_def)
  moreover have "store (ramblock_buf rb) (512 * unat pos) seg = Inl OutOfBounds"
    using assms(2,5) by (simp add: store_def disk_ok_state_def)
  ultimately show ?thesis
    using off len by (auto simp: serve_def access_def Let_def)
qed


text \<open>The last sector below 4 GB, two sectors long.\<close>

theorem bound_check_wraps_witness:
  "serve fresh_disk \<lparr>rq_pos = 2 ^ 23 - 1, rq_write = True, rq_segs = [replicate 1024 1]\<rparr> = Inl OutOfBounds"
  by (rule bound_check_wraps) (simp_all add: fresh_ok)

text \<open>The offset is cut to 32 bits: a sector is taken for the one 4 GB before it.\<close>
theorem sectors_alias: "access rb wr (pos + 2 ^ 23) seg = access rb wr pos seg"
proof -
  have "push_bit 9 (pos + 2 ^ 23) = push_bit 9 pos + 2 ^ 32"
    by (simp add: push_bit_eq_mult algebra_simps)
  moreover have "ucast (a + 2 ^ 32 :: u64) = (ucast a :: u32)" for a
    by (rule word_unat_eq_iff [THEN iffD2])
      (simp add: unsigned_ucast_eq unat_word_ariths take_bit_eq_mod mod_mod_cancel)
  ultimately show ?thesis by (simp add: access_def)
qed


section \<open>The disk as a store\<close>

text \<open>One request per call, one segment per sector, as the contract of a store has it.\<close>

definition rb_put :: "ramblock \<Rightarrow> nat \<Rightarrow> u8 list list \<Rightarrow> ramblock" where
  "rb_put rb a bs =
     (case serve rb \<lparr>rq_pos = of_nat a, rq_write = True, rq_segs = bs\<rparr> of Inl _ \<Rightarrow> rb | Inr (rb, _) \<Rightarrow> rb)"

definition rb_get :: "ramblock \<Rightarrow> nat \<Rightarrow> nat \<Rightarrow> u8 list list" where
  "rb_get rb a n =
     (case serve rb \<lparr>rq_pos = of_nat a, rq_write = False, rq_segs = replicate n (replicate 512 0)\<rparr> of
        Inl _ \<Rightarrow> [] | Inr (_, _, segs) \<Rightarrow> segs)"

definition sector :: "u8 list \<Rightarrow> bool" where
  "sector b \<longleftrightarrow> length b = 512"

lemma concat_sectors: "list_all sector bs \<Longrightarrow> length (concat bs) = 512 * length bs"
  by (induction bs) (auto simp: sector_def)

lemma legal_sectors:
  assumes "list_all sector bs" "a + length bs \<le> 2048"
  shows "legal_request \<lparr>rq_pos = of_nat a, rq_write = wr, rq_segs = bs\<rparr>" "unat (of_nat a :: u64) = a"
proof -
  show a: "unat (of_nat a :: u64) = a" using assms(2) by (simp add: unsigned_of_nat take_bit_nat_eq_self)
  show "legal_request \<lparr>rq_pos = of_nat a, rq_write = wr, rq_segs = bs\<rparr>"
    using assms concat_sectors [OF assms(1)]
    by (auto simp: legal_request_def in_range_def a sector_def list_all_iff)
qed

lemma sectors_replicate: "list_all sector (replicate n (replicate 512 0))"
  by (simp add: list_all_iff sector_def)

lemma rb_put_flat:
  assumes "list_all sector bs" "a + length bs \<le> 2048" "disk_ok_state rb"
  shows "ramblock_buf (rb_put rb a bs) = overwrite (ramblock_buf rb) (512 * a) (concat bs) \<and>
    disk_ok_state (rb_put rb a bs)"
  using serve_flat [OF legal_sectors(1) [OF assms(1,2), of True] assms(3)] legal_sectors(2) [OF assms(1,2)]
  by (auto simp: rb_put_def flat_request_def)

lemma rb_get_flat:
  assumes "a + n \<le> 2048" "disk_ok_state rb"
  shows "rb_get rb a n = cut (replicate n (replicate 512 0)) (drop (512 * a) (ramblock_buf rb))"
  using serve_flat [OF legal_sectors(1) [OF sectors_replicate, of a n False] assms(2)]
    legal_sectors(2) [OF sectors_replicate, of a n] assms(1)
  by (auto simp: rb_get_def flat_request_def)

lemma cut_concat: "list_all sector bs \<Longrightarrow> cut (replicate (length bs) (replicate 512 0)) (concat bs @ ys) = bs"
  by (induction bs) (auto simp: sector_def)

lemma cut_take:
  "take (512 * n) xs = take (512 * n) ys \<Longrightarrow>
    cut (replicate n (replicate 512 0)) xs = cut (replicate n (replicate 512 0)) ys"
proof (induction n arbitrary: xs ys)
  case (Suc n)
  have "take 512 xs = take 512 ys"
    using arg_cong [OF Suc.prems, of "take 512"] by simp
  moreover have "take (512 * n) (drop 512 xs) = take (512 * n) (drop 512 ys)"
    using arg_cong [OF Suc.prems, of "drop 512"] by (simp add: drop_take)
  then have "cut (replicate n (replicate 512 0)) (drop 512 xs) = cut (replicate n (replicate 512 0)) (drop 512 ys)"
    by (rule Suc.IH)
  ultimately show ?case by (simp only: replicate_Suc cut.simps length_replicate)
qed simp

interpretation disk: block_store rb_put rb_get 2048 disk_ok_state sector
proof
  fix s a bs
  assume h: "disk_ok_state s" "a + length bs \<le> 2048" "list_all sector bs"
  note put = rb_put_flat [OF h(3,2,1)]
  show "disk_ok_state (rb_put s a bs)" using put by simp
  have len: "512 * a + length (concat bs) \<le> length (ramblock_buf s)"
    using h concat_sectors [OF h(3)] by (simp add: disk_ok_state_def)
  have "drop (512 * a) (overwrite (ramblock_buf s) (512 * a) (concat bs)) =
      concat bs @ drop (512 * a + length (concat bs)) (ramblock_buf s)"
    using len by (simp add: overwrite_def)
  then show "rb_get (rb_put s a bs) a (length bs) = bs"
    unfolding rb_get_flat [OF h(2) conjunct2 [OF put]] conjunct1 [OF put] by (simp only: cut_concat [OF h(3)])
  fix b n
  assume o: "b + n \<le> 2048" "b + n \<le> a \<or> a + length bs \<le> b"
  have "512 * b + 512 * n \<le> 512 * a \<or> 512 * a + length (concat bs) \<le> 512 * b"
    using o(2) concat_sectors [OF h(3)] by auto
  from load_overwrite_disjoint [OF len this]
  have "take (512 * n) (drop (512 * b) (ramblock_buf (rb_put s a bs))) = take (512 * n) (drop (512 * b) (ramblock_buf s))"
    using put o(1) h(1) by (simp add: load_def disk_ok_state_def split: if_splits)
  from cut_take [OF this] show "rb_get (rb_put s a bs) b n = rb_get s b n"
    using rb_get_flat [OF o(1)] put h(1) by simp
qed

text \<open>Sectors keep what was last written to them: after a write and any later writes to other
  sectors, a read of the range returns the bytes of that write.\<close>
theorem last_write_is_read:
  assumes "disk_ok_state rb" "a + length bs \<le> 2048" "list_all sector bs"
    and "\<forall>w \<in> set ws. fst w + length (snd w) \<le> 2048 \<and> list_all sector (snd w) \<and>
      (a + length bs \<le> fst w \<or> fst w + length (snd w) \<le> a)"
  shows "rb_get (fold (\<lambda>w rb. rb_put rb (fst w) (snd w)) ws (rb_put rb a bs)) a (length bs) = bs"
proof -
  have "disk.puts s ws = fold (\<lambda>w rb. rb_put rb (fst w) (snd w)) ws s" for s
    by (induction ws arbitrary: s) simp_all
  moreover have "disk.legal (a, bs)" "list_all disk.legal ws" "list_all (disk.apart a (length bs)) ws"
    using assms(2-4) by (auto simp: disk.legal_def disk.apart_def list_all_iff)
  ultimately show ?thesis using disk.last_write_wins [OF assms(1), of a bs ws] by simp
qed

theorem last_write_is_read_witness:
  "rb_get (rb_put (rb_put fresh_disk 5 [replicate 512 1, replicate 512 2]) 7 [replicate 512 3]) 5 2 =
     [replicate 512 1, replicate 512 2]"
  using last_write_is_read [OF fresh_ok, of 5 "[replicate 512 1, replicate 512 2]" "[(7, [replicate 512 3])]"]
  by (simp add: sector_def numeral_2_eq_2)

section \<open>Geometry and life cycle\<close>

text \<open>The geometry the driver reports spans exactly the capacity it sets.\<close>
theorem geometry_is_capacity:
  "unat (heads ramblock_getgeo) * unat (cylinders ramblock_getgeo) * unat (sectors ramblock_getgeo) =
     unat set_capacity \<and> unat set_capacity * 512 = length (ramblock_buf fresh_disk)"
  by (simp add: ramblock_getgeo_def set_capacity_def RAMBLOCK_SIZE_def fresh_disk_def)

text \<open>\<open>register_blkdev\<close> with major number 0 returns a positive number or a negative error.\<close>

interpretation ramblock: lifecycle ramblock_init "\<lambda>_. ramblock_exit" "\<lambda>env. blkdev_ret env \<noteq> 0"
  by unfold_locales (auto simp: ramblock_init_def ramblock_exit_def ledger_def split: if_splits)

text \<open>C38: Whichever step of the initialisation fails, and after every unload, the RAM disk has given back
  its major number, disk, queue and memory, each once.\<close>
theorem ramblock_cycles_balanced:
  assumes "\<forall>env \<in> set envs. blkdev_ret env \<noteq> 0"
  shows "ledger (concat (map (cycle ramblock_init (\<lambda>_. ramblock_exit)) envs)) = Some {#}"
  by (rule ramblock.cycles_balanced) (use assms in \<open>simp add: list_all_iff\<close>)

theorem ramblock_cycles_balanced_witness:
  "ledger (cycle ramblock_init (\<lambda>_. ramblock_exit)
       \<lparr>blkdev_ret = 254, disk_ok = True, queue_ok = False, kzalloc_buf = True\<rparr> @
     cycle ramblock_init (\<lambda>_. ramblock_exit)
       \<lparr>blkdev_ret = 254, disk_ok = True, queue_ok = True, kzalloc_buf = True\<rparr>) = Some {#}"
  using ramblock_cycles_balanced [of "[\<lparr>blkdev_ret = 254, disk_ok = True, queue_ok = False, kzalloc_buf = True\<rparr>,
    \<lparr>blkdev_ret = 254, disk_ok = True, queue_ok = True, kzalloc_buf = True\<rparr>]"] by simp

end
