(* ===== verification/Char_Driver.thy ===== *)
theory Char_Driver
  imports Kernel
begin

text \<open>
  What the character drivers of the repository have in common: four buttons on four interrupt lines,
  the registration of a module with its class and device node, and the contract of the
  drivers that keep an event flag for \<open>poll\<close> and \<open>read\<close>.
\<close>

section \<open>Registration\<close>

datatype chr_res = Major | Class | Node | Iomap nat | Timer | Irq nat

text \<open>
  The results of \<open>register_chrdev\<close> (the major number, or a negative error), \<open>class_create\<close> and
  \<open>device_create\<close> (an error, or none).
\<close>

record chr_env =
  major_ret :: int
  class_err :: "int option"
  node_err :: "int option"

text \<open>
  The initialisation every one of these modules begins with: the result of \<open>register_chrdev\<close> is not
  looked at, and the error paths return without undoing anything.
\<close>

definition chrdev_init :: "chr_env \<Rightarrow> int \<times> chr_res event list" where
  "chrdev_init env =
     (let es = (if major_ret env < 0 then [] else [Acq Major])
      in case class_err env of
           Some err \<Rightarrow> (err, es)
         | None \<Rightarrow> (case node_err env of
             Some err \<Rightarrow> (err, es @ [Acq Class])
           | None \<Rightarrow> (0, es @ [Acq Class, Acq Node])))"

definition chrdev_exit :: "chr_res event list" where
  "chrdev_exit = [Rel Node, Rel Class, Rel Major]"

text \<open>An error pointer never holds 0.\<close>

definition chr_valid :: "chr_env \<Rightarrow> bool" where
  "chr_valid env \<longleftrightarrow> class_err env \<noteq> Some 0 \<and> node_err env \<noteq> Some 0"

lemma chrdev_init_ledger:
  "ledger (snd (chrdev_init env)) = Some ((if major_ret env < 0 then {#} else {#Major#}) +
     (if class_err env \<noteq> None then {#} else if node_err env \<noteq> None then {#Class#} else {#Class, Node#}))"
  by (auto simp: chrdev_init_def ledger_def Let_def split: option.splits)

lemma chrdev_life:
  assumes "chr_valid env" "fst (chrdev_init env) = 0"
  shows "ledger (snd (chrdev_init env) @ chrdev_exit) = (if major_ret env < 0 then None else Some {#})"
  using assms by (auto simp: chr_valid_def chrdev_init_def chrdev_exit_def ledger_def Let_def split: option.splits)

section \<open>Interrupt lines\<close>

text \<open>
  The kernel's \<open>request_irq\<close> and \<open>free_irq\<close> are parameters, over the lines that have a handler.
  Without \<open>IRQF_SHARED\<close> a line has at most one: \<open>exclusive\<close> says so, and \<open>request_line\<close>,
  \<open>free_line\<close> are functions that behave like that.
\<close>

type_synonym request_irq = "nat \<Rightarrow> nat list \<Rightarrow> int \<times> nat list"
type_synonym free_irq = "nat \<Rightarrow> nat list \<Rightarrow> nat list"

definition button_irqs :: "nat list" where
  "button_irqs = [0, 2, 11, 19]"

definition exclusive :: "request_irq \<Rightarrow> free_irq \<Rightarrow> bool" where
  "exclusive request free \<longleftrightarrow>
     (\<forall>irq held. request irq held = (if irq \<in> set held then (- EBUSY, held) else (0, irq # held))) \<and>
     (\<forall>irq held. free irq held = filter (\<lambda>l. l \<noteq> irq) held)"

definition request_line :: request_irq where
  "request_line irq held = (if irq \<in> set held then (- EBUSY, held) else (0, irq # held))"

definition free_line :: free_irq where
  "free_line irq held = filter (\<lambda>l. l \<noteq> irq) held"

lemma exclusive_lines: "exclusive request_line free_line"
  by (simp add: exclusive_def request_line_def free_line_def)

section \<open>Asynchronous notification\<close>

text \<open>
  The kernel's \<open>fasync_helper\<close> is a parameter: it puts a file on a queue or takes it off. \<open>keeps_queue\<close>
  says what it promises, \<open>add_remove\<close> is a function that behaves like that. \<open>kill_fasync\<close> signals
  every file of the queue.
\<close>

type_synonym fasync_helper = "nat \<Rightarrow> bool \<Rightarrow> nat list \<Rightarrow> int \<times> nat list"

definition keeps_queue :: "fasync_helper \<Rightarrow> bool" where
  "keeps_queue helper \<longleftrightarrow>
     (\<forall>fd q. distinct q \<longrightarrow> distinct (snd (helper fd True q)) \<and> set (snd (helper fd True q)) = insert fd (set q)) \<and>
     (\<forall>fd q. distinct q \<longrightarrow> distinct (snd (helper fd False q)) \<and> set (snd (helper fd False q)) = set q - {fd})"

definition add_remove :: fasync_helper where
  "add_remove fd on q =
     (if on then (if fd \<in> set q then (0, q) else (1, fd # q))
      else (if fd \<in> set q then 1 else 0, filter (\<lambda>f. f \<noteq> fd) q))"

lemma add_remove_keeps_queue: "keeps_queue add_remove"
  by (auto simp: keeps_queue_def add_remove_def)

section \<open>Buttons\<close>

text \<open>
  The state of an event driver: the value of each button (1 when pressed), the flag, the open
  lines, how often sleepers were woken, the files that asked for \<open>SIGIO\<close>, and the signals sent, by file.
\<close>

record key_state =
  key_vals :: "u32 list"
  ev_press :: int
  lines :: "nat list"
  wakes :: nat
  async_q :: "nat list"
  sigios :: "nat list"

text \<open>\<open>!gpio_get_value(pin)\<close>: a pressed button pulls its pin low.\<close>

definition pressed :: "int \<Rightarrow> u32" where
  "pressed level = (if level = 0 then 1 else 0)"

text \<open>
  A pin of a port. \<open>gpio_get_value\<close>, which returns its level, is the kernel's and a parameter.
\<close>

datatype gpio_pin = GPF nat | GPG nat

type_synonym gpio = "gpio_pin \<Rightarrow> int"

text \<open>The word a read returns.\<close>

definition pack_keys :: "u32 list \<Rightarrow> u32" where
  "pack_keys vs = vs ! 0 OR push_bit 1 (vs ! 1) OR push_bit 2 (vs ! 2) OR push_bit 3 (vs ! 3)"

definition keys_ok :: "u32 list \<Rightarrow> bool" where
  "keys_ok vs \<longleftrightarrow> length vs = 4 \<and> list_all (\<lambda>v. v = 0 \<or> v = 1) vs"

lemma bit_key: "v = 0 \<or> v = (1 :: u32) \<Longrightarrow> bit v n \<longleftrightarrow> v = 1 \<and> n = 0"
  by (auto simp: bit_1_iff)

lemma keys_okD: "keys_ok vs \<Longrightarrow> k < 4 \<Longrightarrow> vs ! k = 0 \<or> vs ! k = 1"
  by (simp add: keys_ok_def list_all_length)

lemma bit_pack_keys:
  assumes "keys_ok vs"
  shows "bit (pack_keys vs) k \<longleftrightarrow> k < 4 \<and> vs ! k = 1"
proof -
  have v: "bit (vs ! i) n \<longleftrightarrow> vs ! i = 1 \<and> n = 0" if "i < 4" for i n
    using keys_okD [OF assms that] by (rule bit_key)
  have "k < 4 \<longleftrightarrow> k = 0 \<or> k = 1 \<or> k = 2 \<or> k = 3" by linarith
  then show ?thesis
    unfolding pack_keys_def bit_or_iff bit_push_bit_iff by (auto simp: v)
qed

lemma pack_keys_bound: "keys_ok vs \<Longrightarrow> pack_keys vs < 16"
proof -
  assume "keys_ok vs"
  then have "take_bit 4 (pack_keys vs) = pack_keys vs"
    by (intro bit_eqI) (auto simp: bit_take_bit_iff bit_pack_keys)
  then have "unat (pack_keys vs) = take_bit 4 (unat (pack_keys vs))" by (metis unsigned_take_bit_eq)
  then have "unat (pack_keys vs) < 2 ^ 4" by (metis take_bit_nat_less_exp)
  then show ?thesis by (simp add: word_less_nat_alt)
qed

definition POLLIN :: u32 where "POLLIN = 0x1"
definition POLLRDNORM :: u32 where "POLLRDNORM = 0x40"

text \<open>None of the four lines has a handler.\<close>

definition all_free :: "key_state \<Rightarrow> bool" where
  "all_free s \<longleftrightarrow> set (button_irqs) \<inter> set (lines s) = {}"

definition initial :: key_state where
  "initial = \<lparr>key_vals = [0, 0, 0, 0], ev_press = 0, lines = [], wakes = 0, async_q = [], sigios = []\<rparr>"

section \<open>The contract of an event driver\<close>

text \<open>
  \<open>notify e s\<close> is what the driver does when it learns of event \<open>e\<close>; \<open>read n s\<close> is a read of \<open>n\<close> bytes
  (its result, the word delivered, the new state); \<open>poll s\<close> the poll mask; \<open>keys s\<close> the
  buttons as a reader would see them, \<open>upd e\<close> what an event makes of them.
\<close>

locale event_driver =
  fixes notify :: "'e \<Rightarrow> 's \<Rightarrow> 's" and read :: "u32 \<Rightarrow> 's \<Rightarrow> int \<times> u32 option \<times> 's"
    and poll :: "'s \<Rightarrow> u32" and keys :: "'s \<Rightarrow> u32 list" and upd :: "'e \<Rightarrow> u32 list \<Rightarrow> u32 list"
  assumes notify_keys: "keys (notify e s) = upd e (keys s)"
    and notify_poll: "poll (notify e s) = POLLIN OR POLLRDNORM"
    and read_word: "fst (snd (read 4 s)) = Some (pack_keys (keys s))" "fst (read 4 s) = 4"
    and read_clears: "poll (snd (snd (read 4 s))) = 0" "keys (snd (snd (read 4 s))) = keys s"
    and read_short: "n \<noteq> 4 \<Longrightarrow> read n s = (- EINVAL, None, s)"
begin

lemma notify_all_keys: "keys (fold notify es s) = fold upd es (keys s)"
  by (induction es arbitrary: s) (simp_all add: notify_keys)

text \<open>However many events came, one read delivers the buttons after the last and clears the flag.\<close>

lemma read_after_events:
  assumes "es \<noteq> []"
  shows "poll (fold notify es s) = POLLIN OR POLLRDNORM"
    and "fst (snd (read 4 (fold notify es s))) = Some (pack_keys (fold upd es (keys s)))"
    and "poll (snd (snd (read 4 (fold notify es s)))) = 0"
proof -
  obtain e es' where "es = es' @ [e]" using assms by (cases es rule: rev_cases) auto
  then show "poll (fold notify es s) = POLLIN OR POLLRDNORM" by (simp add: notify_poll)
qed (simp_all add: read_word read_clears notify_all_keys)

text \<open>A read of a wrong length changes nothing, so the event stays to be read.\<close>

lemma wrong_length_keeps_event:
  "n \<noteq> 4 \<Longrightarrow> poll (snd (snd (read n (notify e s)))) = POLLIN OR POLLRDNORM"
  by (simp add: read_short notify_poll)

end

end
