(* ===== verification/Key_Irq.thy ===== *)
theory Key_Irq
  imports Char_Driver
begin

text \<open>
  The interrupt driven button driver, \<open>key_irq/key_irq_drv.c\<close>: the handler, the file operations
  and the module hooks; its event contract; what it does with the interrupt lines.
\<close>

section \<open>The driver\<close>

text \<open>The handler of button \<open>k\<close>, with the level \<open>gpio_get_value\<close> returns.\<close>

definition buttons_irq :: "nat \<times> int \<Rightarrow> key_state \<Rightarrow> key_state" where
  "buttons_irq e s =
     s\<lparr>key_vals := (key_vals s)[fst e := pressed (snd e)], ev_press := 1, wakes := wakes s + 1,
       sigios := sigios s @ async_q s\<rparr>"

text \<open>The pins of the table \<open>pins_desc\<close>, and the handler with the entry it is given.\<close>

definition key_pins :: "gpio_pin list" where
  "key_pins = [GPF 0, GPF 2, GPG 3, GPG 11]"

definition pin_irq :: "nat \<times> gpio \<Rightarrow> key_state \<Rightarrow> key_state" where
  "pin_irq e s = (case e of (k, gpio_get_value) \<Rightarrow> buttons_irq (k, gpio_get_value (key_pins ! k)) s)"

text \<open>The result of every \<open>request_irq\<close> is overwritten by the next, and the last is not looked at.\<close>

definition my_key_open :: "request_irq \<Rightarrow> key_state \<Rightarrow> int \<times> key_state" where
  "my_key_open request s =
     (let (ret, held) = request (button_irqs ! 0) (lines s);
          (ret, held) = request (button_irqs ! 1) held;
          (ret, held) = request (button_irqs ! 2) held;
          (ret, held) = request (button_irqs ! 3) held
      in (0, s\<lparr>lines := held\<rparr>))"

definition my_key_close :: "free_irq \<Rightarrow> key_state \<Rightarrow> int \<times> key_state" where
  "my_key_close free s =
     (let held = free (button_irqs ! 0) (lines s);
          held = free (button_irqs ! 1) held;
          held = free (button_irqs ! 2) held;
          held = free (button_irqs ! 3) held
      in (0, s\<lparr>lines := held\<rparr>))"

text \<open>The value written is only logged; the count is returned as an \<open>int\<close>.\<close>

definition my_key_write :: "u32 \<Rightarrow> key_state \<Rightarrow> int \<times> key_state" where
  "my_key_write cnt s = (sint cnt, s)"

text \<open>
  \<open>fault\<close> says that the copy to the user fails: the word is lost, and the call still returns the
  count and clears the flag.
\<close>

definition my_key_read :: "bool \<Rightarrow> u32 \<Rightarrow> key_state \<Rightarrow> int \<times> u32 option \<times> key_state" where
  "my_key_read fault cnt s =
     (let key_val = pack_keys (key_vals s) in
      if cnt \<noteq> 4 then (- EINVAL, None, s)
      else (sint cnt, if fault then None else Some key_val, s\<lparr>ev_press := 0\<rparr>))"

text \<open>The mask, and whether the caller was put on the wait queue.\<close>

definition my_key_poll :: "key_state \<Rightarrow> u32 \<times> bool" where
  "my_key_poll s = (if ev_press s \<noteq> 0 then POLLIN OR POLLRDNORM else 0, True)"

text \<open>The file operation behind \<open>FASYNC\<close>.\<close>

definition my_key_fasync :: "fasync_helper \<Rightarrow> nat \<Rightarrow> bool \<Rightarrow> key_state \<Rightarrow> int \<times> key_state" where
  "my_key_fasync helper fd on s = (let (ret, q) = helper fd on (async_q s) in (ret, s\<lparr>async_q := q\<rparr>))"

definition my_key_init :: "chr_env \<Rightarrow> int \<times> chr_res event list" where
  "my_key_init env = chrdev_init env"

definition my_key_exit :: "chr_res event list" where
  "my_key_exit = chrdev_exit"

section \<open>Events\<close>

interpretation irq: event_driver buttons_irq "my_key_read False" "\<lambda>s. fst (my_key_poll s)" key_vals
  "\<lambda>e vs. vs[fst e := pressed (snd e)]"
  by unfold_locales (simp_all add: buttons_irq_def my_key_read_def my_key_poll_def)

lemma upd_ok: "keys_ok vs \<Longrightarrow> keys_ok (vs[k := pressed level])"
  by (auto simp: keys_ok_def pressed_def intro: list_all_update)

lemma upds_ok: "keys_ok vs \<Longrightarrow> keys_ok (fold (\<lambda>e vs. vs[fst e := pressed (snd e)]) es vs)"
  by (induction es arbitrary: vs) (simp_all add: upd_ok)

text \<open>What an event says of button \<open>k\<close>: the level of its last event.\<close>

primrec last_level :: "nat \<Rightarrow> (nat \<times> int) list \<Rightarrow> bool \<Rightarrow> bool" where
  "last_level k [] p = p"
| "last_level k (e # es) p = last_level k es (if fst e = k then snd e = 0 else p)"

lemma fold_level:
  "keys_ok vs \<Longrightarrow> k < 4 \<Longrightarrow>
    fold (\<lambda>e vs. vs[fst e := pressed (snd e)]) es vs ! k = 1 \<longleftrightarrow> last_level k es (vs ! k = 1)"
proof (induction es arbitrary: vs)
  case (Cons e es)
  have "length vs = 4" using Cons.prems(1) by (simp add: keys_ok_def)
  then have "(vs[fst e := pressed (snd e)] ! k = 1) = (if fst e = k then snd e = 0 else vs ! k = 1)"
    using Cons.prems(2) by (auto simp: pressed_def nth_list_update)
  then show ?case using Cons upd_ok by simp
qed simp

text \<open>C15: After any interrupts \<open>poll\<close> reports the file readable, and a read of four bytes returns a
  word whose bit \<open>k\<close> is set exactly when button \<open>k\<close> was low at its last interrupt, with no other
  bits; the read uses up all the events at once.\<close>
theorem read_reports_buttons:
  assumes "es \<noteq> []" "keys_ok (key_vals s)"
  shows "fst (my_key_poll (fold buttons_irq es s)) = POLLIN OR POLLRDNORM \<and>
    (\<exists>w s'. my_key_read False 4 (fold buttons_irq es s) = (4, Some w, s') \<and> w < 16 \<and>
      (\<forall>k < 4. bit w k \<longleftrightarrow> last_level k es (key_vals s ! k = 1)) \<and> fst (my_key_poll s') = 0)"
proof -
  let ?vs = "fold (\<lambda>e vs. vs[fst e := pressed (snd e)]) es (key_vals s)"
  have ok: "keys_ok ?vs" using assms(2) by (rule upds_ok)
  have w: "my_key_read False 4 (fold buttons_irq es s) =
      (4, Some (pack_keys ?vs), (fold buttons_irq es s)\<lparr>ev_press := 0\<rparr>)"
    using irq.read_after_events(2) [OF assms(1), of s] irq.notify_all_keys [of es s]
    by (simp add: my_key_read_def)
  show ?thesis
    using irq.read_after_events [OF assms(1), of s] w bit_pack_keys [OF ok] pack_keys_bound [OF ok]
      fold_level [OF assms(2), of _ es]
    by (auto simp: my_key_poll_def)
qed

theorem read_reports_buttons_witness:
  "fst (my_key_poll (fold buttons_irq [(0, 0), (3, 0), (0, 1)] initial)) = POLLIN OR POLLRDNORM \<and>
   (\<exists>w s'. my_key_read False 4 (fold buttons_irq [(0, 0), (3, 0), (0, 1)] initial) = (4, Some w, s') \<and>
     \<not> bit w 0 \<and> bit w 3)"
  using read_reports_buttons [of "[(0, 0), (3, 0), (0, 1)]" initial]
  by (auto simp: initial_def keys_ok_def)

text \<open>A read whose copy to the user fails still reports success and clears the flag: the event is
  lost, and \<open>poll\<close> no longer reports it.\<close>
theorem failed_copy_loses_event:
  "my_key_read True 4 s = (4, None, s') \<Longrightarrow> fst (my_key_poll s') = 0"
  by (auto simp: my_key_read_def my_key_poll_def)

theorem failed_copy_loses_event_witness:
  "fst (my_key_poll ((buttons_irq (1, 0) initial)\<lparr>ev_press := 0\<rparr>)) = 0"
  by (rule failed_copy_loses_event [of "buttons_irq (1, 0) initial"])
    (simp add: my_key_read_def)

section \<open>Signals\<close>

lemma irq_async: "async_q (fold buttons_irq es s) = async_q s"
  by (induction es arbitrary: s) (simp_all add: buttons_irq_def)

lemma irq_signals:
  "count_list (sigios (fold buttons_irq es s)) fd =
     count_list (sigios s) fd + length es * count_list (async_q s) fd"
  by (induction es arbitrary: s) (simp_all add: buttons_irq_def)

lemma count_distinct: "distinct xs \<Longrightarrow> count_list xs x = (if x \<in> set xs then 1 else 0)"
  by (induction xs) auto

text \<open>A file that asked for signals gets one for every interrupt, however often it asked, and
  none after it has withdrawn; the other files are not affected.\<close>
theorem fasync_signals:
  assumes "keeps_queue helper" "distinct (async_q s)"
  shows "(let on = snd (my_key_fasync helper fd True s); off = snd (my_key_fasync helper fd False s) in
    count_list (sigios (fold buttons_irq es on)) fd = count_list (sigios s) fd + length es \<and>
    count_list (sigios (fold buttons_irq es off)) fd = count_list (sigios s) fd \<and>
    (\<forall>g. g \<noteq> fd \<longrightarrow>
      count_list (sigios (fold buttons_irq es on)) g = count_list (sigios (fold buttons_irq es s)) g \<and>
      count_list (sigios (fold buttons_irq es off)) g = count_list (sigios (fold buttons_irq es s)) g))"
proof -
  have sig: "sigios (snd (my_key_fasync helper fd b s)) = sigios s"
    and q: "async_q (snd (my_key_fasync helper fd b s)) = snd (helper fd b (async_q s))" for b
    by (simp_all add: my_key_fasync_def split_def Let_def)
  have d: "distinct (snd (helper fd b (async_q s)))" for b
    using assms by (cases b) (auto simp: keeps_queue_def)
  have m: "set (snd (helper fd True (async_q s))) = insert fd (set (async_q s))"
    "set (snd (helper fd False (async_q s))) = set (async_q s) - {fd}"
    using assms by (auto simp: keeps_queue_def)
  show ?thesis
    by (simp add: Let_def irq_signals sig q count_distinct [OF d] count_distinct [OF assms(2)] m)
qed

theorem fasync_signals_witness:
  "count_list (sigios (fold buttons_irq [(0, 0), (0, 1)] (snd (my_key_fasync add_remove 5 True initial)))) 5 = 2"
  using fasync_signals [OF add_remove_keeps_queue, of initial 5 "[(0, 0), (0, 1)]"]
  by (simp add: initial_def Let_def)

section \<open>Interrupt lines\<close>

text \<open>C37: With one file open the four lines have their handlers, and closing it frees exactly those.
  With a second one open the requests of the second fail and are ignored, and closing either of
  the two leaves the other without a single interrupt.\<close>
theorem open_close_lines:
  assumes "exclusive request free" "all_free s"
  shows "set (lines (snd (my_key_open request s))) = set (lines s) \<union> set button_irqs \<and>
    lines (snd (my_key_close free (snd (my_key_open request s)))) = lines s \<and>
    my_key_open request (snd (my_key_open request s)) = (0, snd (my_key_open request s)) \<and>
    all_free (snd (my_key_close free (snd (my_key_open request (snd (my_key_open request s))))))"
  using assms
  by (auto simp: all_free_def my_key_open_def my_key_close_def exclusive_def button_irqs_def
      filter_id_conv intro!: Nat.gr0I)

theorem open_close_lines_witness:
  "set (lines (snd (my_key_open request_line initial))) = {0, 2, 11, 19} \<and>
   all_free (snd (my_key_close free_line (snd (my_key_open request_line (snd (my_key_open request_line initial))))))"
  using open_close_lines [OF exclusive_lines, of initial] by (simp add: initial_def all_free_def button_irqs_def)

section \<open>Module hooks\<close>

text \<open>A failed initialisation leaves behind what it had acquired: the major number, and the class if the
  node could not be created. A successful one is undone by the exit exactly when the
  major number had been assigned.\<close>
theorem key_init_ledger:
  assumes "chr_valid env"
  shows "ledger (snd (my_key_init env)) = Some ((if major_ret env < 0 then {#} else {#Major#}) +
      (if class_err env \<noteq> None then {#} else if node_err env \<noteq> None then {#Class#} else {#Class, Node#})) \<and>
    (fst (my_key_init env) = 0 \<longrightarrow>
      ledger (snd (my_key_init env) @ my_key_exit) = (if major_ret env < 0 then None else Some {#}))"
  unfolding my_key_init_def my_key_exit_def using chrdev_init_ledger chrdev_life [OF assms] by simp

theorem key_init_ledger_witness:
  "ledger (snd (my_key_init \<lparr>major_ret = 250, class_err = None, node_err = Some (- ENOMEM)\<rparr>)) =
     Some {#Major, Class#}"
  using key_init_ledger [of "\<lparr>major_ret = 250, class_err = None, node_err = Some (- ENOMEM)\<rparr>"]
  by (simp add: chr_valid_def)

end
