(* ===== verification/Req_Drv.thy ===== *)
theory Req_Drv
  imports Key_Irq
begin

text \<open>
  The button driver of \<open>request_module/req_drv.c\<close>: a copy of the interrupt driven one whose \<open>poll\<close>
  no longer puts the caller on the wait queue. (The file has a stray \<open>module_\<close> in its
  initialisation function and does not compile; the model leaves the token out.)
\<close>

definition req_buttons_irq :: "nat \<times> int \<Rightarrow> key_state \<Rightarrow> key_state" where
  "req_buttons_irq e s =
     (let s = s\<lparr>key_vals := (key_vals s)[fst e := pressed (snd e)]\<rparr>;
          s = s\<lparr>ev_press := 1\<rparr>;
          s = s\<lparr>wakes := wakes s + 1\<rparr>
      in s\<lparr>sigios := sigios s @ async_q s\<rparr>)"

definition req_open :: "request_irq \<Rightarrow> key_state \<Rightarrow> int \<times> key_state" where
  "req_open request s =
     (let (ret, held) = request (button_irqs ! 0) (lines s);
          (ret, held) = request (button_irqs ! 1) held;
          (ret, held) = request (button_irqs ! 2) held;
          (ret, held) = request (button_irqs ! 3) held
      in (0, s\<lparr>lines := held\<rparr>))"

definition req_close :: "free_irq \<Rightarrow> key_state \<Rightarrow> int \<times> key_state" where
  "req_close free s =
     (let held = free (button_irqs ! 0) (lines s);
          held = free (button_irqs ! 1) held;
          held = free (button_irqs ! 2) held;
          held = free (button_irqs ! 3) held
      in (0, s\<lparr>lines := held\<rparr>))"

definition req_write :: "u32 \<Rightarrow> key_state \<Rightarrow> int \<times> key_state" where
  "req_write cnt s = (sint cnt, s)"

definition req_read :: "bool \<Rightarrow> u32 \<Rightarrow> key_state \<Rightarrow> int \<times> u32 option \<times> key_state" where
  "req_read fault cnt s =
     (let key_val = pack_keys (key_vals s) in
      if cnt \<noteq> 4 then (- EINVAL, None, s)
      else (sint cnt, if fault then None else Some key_val, s\<lparr>ev_press := 0\<rparr>))"

definition req_poll :: "key_state \<Rightarrow> u32 \<times> bool" where
  "req_poll s = (if ev_press s \<noteq> 0 then POLLIN OR POLLRDNORM else 0, False)"

text \<open>The file operation behind \<open>FASYNC\<close>.\<close>

definition req_fasync :: "fasync_helper \<Rightarrow> nat \<Rightarrow> bool \<Rightarrow> key_state \<Rightarrow> int \<times> key_state" where
  "req_fasync helper fd on s = (let (ret, q) = helper fd on (async_q s) in (ret, s\<lparr>async_q := q\<rparr>))"

definition req_init :: "chr_env \<Rightarrow> int \<times> chr_res event list" where
  "req_init env = chrdev_init env"

definition req_exit :: "chr_res event list" where
  "req_exit = chrdev_exit"

interpretation req: event_driver req_buttons_irq "req_read False" "\<lambda>s. fst (req_poll s)" key_vals
  "\<lambda>e vs. vs[fst e := pressed (snd e)]"
  by unfold_locales (simp_all add: req_buttons_irq_def req_read_def req_poll_def Let_def)

text \<open>The two drivers are the same driver, call for call, except that \<open>poll\<close> does not register the
  caller: it sees events that are there but is not woken by one that comes later.\<close>
theorem req_is_key_irq:
  "req_buttons_irq = buttons_irq \<and> req_open = my_key_open \<and> req_close = my_key_close \<and>
   req_write = my_key_write \<and> req_read = my_key_read \<and> req_fasync = my_key_fasync \<and> req_init = my_key_init \<and> req_exit = my_key_exit \<and>
   (\<forall>s. fst (req_poll s) = fst (my_key_poll s) \<and> snd (my_key_poll s) \<and> \<not> snd (req_poll s))"
  by (intro conjI ext allI)
    (simp_all add: req_buttons_irq_def buttons_irq_def req_open_def my_key_open_def req_close_def
      my_key_close_def req_write_def my_key_write_def req_read_def my_key_read_def req_fasync_def my_key_fasync_def req_init_def
      my_key_init_def req_exit_def my_key_exit_def req_poll_def my_key_poll_def Let_def)

end
