(* ===== verification/Key_Jitter.thy ===== *)
theory Key_Jitter
  imports Char_Driver
begin

text \<open>
  The debounced button driver, \<open>key_jitter/key_jiffer_drv.c\<close>: interrupts only restart a timer, and
  the timer reads all the buttons. Time is counted in jiffies, \<open>HZ\<close> of them to the second, in an
  \<open>unsigned long\<close> of 32 bits that wraps around.
\<close>

record jit_state =
  keys :: key_state
  key_timer :: "u32 option"
  jiffies :: u32

section \<open>The driver\<close>

text \<open>\<open>mod_timer(&key_timer, jiffies+HZ/100+1)\<close>: pending or not, the timer gets the new expiry.\<close>

definition jit_buttons_irq :: "u32 \<Rightarrow> jit_state \<Rightarrow> jit_state" where
  "jit_buttons_irq HZ s = s\<lparr>key_timer := Some (jiffies s + HZ div 100 + 1)\<rparr>"

text \<open>\<open>level i\<close> is what \<open>gpio_get_value\<close> returns for the pin of entry \<open>i\<close> of \<open>pins_desc\<close>.\<close>

definition jit_pins :: "gpio_pin list" where
  "jit_pins = [GPF 0, GPF 2, GPG 3, GPG 11]"

definition pin_levels :: "gpio \<Rightarrow> nat \<Rightarrow> int" where
  "pin_levels gpio_get_value i = gpio_get_value (jit_pins ! i)"

definition get_all_key_val :: "(nat \<Rightarrow> int) \<Rightarrow> u32 list \<Rightarrow> u32 list" where
  "get_all_key_val level vs = fold (\<lambda>i vs. vs[i := pressed (level i)]) [0..<4] vs"

definition kery_timer_function :: "(nat \<Rightarrow> int) \<Rightarrow> key_state \<Rightarrow> key_state" where
  "kery_timer_function level s =
     s\<lparr>key_vals := get_all_key_val level (key_vals s), ev_press := 1, wakes := wakes s + 1,
       sigios := sigios s @ async_q s\<rparr>"

definition jit_open :: "request_irq \<Rightarrow> key_state \<Rightarrow> int \<times> key_state" where
  "jit_open request s =
     (let (ret, held) = request (button_irqs ! 0) (lines s);
          (ret, held) = request (button_irqs ! 1) held;
          (ret, held) = request (button_irqs ! 2) held;
          (ret, held) = request (button_irqs ! 3) held
      in (0, s\<lparr>lines := held\<rparr>))"

definition jit_close :: "free_irq \<Rightarrow> key_state \<Rightarrow> int \<times> key_state" where
  "jit_close free s =
     (let held = free (button_irqs ! 0) (lines s);
          held = free (button_irqs ! 1) held;
          held = free (button_irqs ! 2) held;
          held = free (button_irqs ! 3) held
      in (0, s\<lparr>lines := held\<rparr>))"

definition jit_write :: "u32 \<Rightarrow> key_state \<Rightarrow> int \<times> key_state" where
  "jit_write cnt s = (sint cnt, s)"

definition jit_read :: "bool \<Rightarrow> u32 \<Rightarrow> key_state \<Rightarrow> int \<times> u32 option \<times> key_state" where
  "jit_read fault cnt s =
     (let key_val = pack_keys (key_vals s) in
      if cnt \<noteq> 4 then (- EINVAL, None, s)
      else (sint cnt, if fault then None else Some key_val, s\<lparr>ev_press := 0\<rparr>))"

definition jit_poll :: "key_state \<Rightarrow> u32 \<times> bool" where
  "jit_poll s = (if ev_press s \<noteq> 0 then POLLIN OR POLLRDNORM else 0, True)"

text \<open>The file operation behind \<open>FASYNC\<close>.\<close>

definition jit_fasync :: "fasync_helper \<Rightarrow> nat \<Rightarrow> bool \<Rightarrow> key_state \<Rightarrow> int \<times> key_state" where
  "jit_fasync helper fd on s = (let (ret, q) = helper fd on (async_q s) in (ret, s\<lparr>async_q := q\<rparr>))"

text \<open>
  The initialisation arms the timer with expiry 0 before anything can fail, and neither the error
  paths nor the exit delete it.
\<close>

definition jit_init :: "chr_env \<Rightarrow> int \<times> chr_res event list" where
  "jit_init env = (let (ret, es) = chrdev_init env in (ret, Acq Timer # es))"

definition jit_exit :: "chr_res event list" where
  "jit_exit = chrdev_exit"

definition jit_loaded :: "u32 \<Rightarrow> jit_state" where
  "jit_loaded now = \<lparr>keys = initial, key_timer = Some 0, jiffies = now\<rparr>"

section \<open>Time\<close>

text \<open>
  The kernel's side. A timer is due when \<open>time_after_eq(jiffies, expires)\<close>, a signed comparison that is
  right as long as the two are less than half the range of the clock apart. One jiffy: the clock advances, a timer
  that is due runs once (with the levels of the pins at that time), then perhaps a button interrupt.
\<close>

definition due :: "u32 \<Rightarrow> u32 \<Rightarrow> bool" where
  "due now e \<longleftrightarrow> 0 \<le> sint (now - e)"

definition run_timer :: "(u32 \<Rightarrow> nat \<Rightarrow> int) \<Rightarrow> jit_state \<Rightarrow> jit_state" where
  "run_timer level s =
     (case key_timer s of
        Some e \<Rightarrow> if due (jiffies s) e
          then s\<lparr>key_timer := None, keys := kery_timer_function (level (jiffies s)) (keys s)\<rparr> else s
      | None \<Rightarrow> s)"

definition jiffy :: "u32 \<Rightarrow> (u32 \<Rightarrow> nat \<Rightarrow> int) \<Rightarrow> bool \<Rightarrow> jit_state \<Rightarrow> jit_state" where
  "jiffy HZ level edge s =
     (let s = run_timer level (s\<lparr>jiffies := jiffies s + 1\<rparr>)
      in if edge then jit_buttons_irq HZ s else s)"

abbreviation run_jiffies :: "u32 \<Rightarrow> (u32 \<Rightarrow> nat \<Rightarrow> int) \<Rightarrow> bool list \<Rightarrow> jit_state \<Rightarrow> jit_state" where
  "run_jiffies HZ level \<equiv> fold (jiffy HZ level)"

text \<open>The quiet time of the driver, \<open>HZ/100\<close> jiffies, is far below half the range.\<close>

abbreviation quiet :: "u32 \<Rightarrow> nat" where
  "quiet HZ \<equiv> unat (HZ div 100)"

lemma quiet_bound: "quiet HZ < 2 ^ 30"
proof -
  have "unat (HZ div 100) = unat HZ div 100" by (simp add: unat_div)
  moreover have "unat HZ < 2 ^ 32" using unsigned_less [of HZ, where ?'a = nat] by simp
  ultimately show ?thesis by simp
qed

lemma not_due:
  assumes "0 < n" "n < 2 ^ 31"
  shows "\<not> due now (now + of_nat n)"
proof -
  have "sint (word_of_int (- int n) :: u32) = - int n" using assms by (intro sint_word_of_int_errno) simp_all
  then show ?thesis using assms(1) by (simp add: due_def)
qed

lemma due_now [simp]: "due now now"
  by (simp add: due_def)

section \<open>Debouncing\<close>

lemma get_all_key_val_eq:
  "length vs = 4 \<Longrightarrow> get_all_key_val level vs = map (\<lambda>i. pressed (level i)) [0..<4]"
  by (auto simp: get_all_key_val_def length_Suc_conv eval_nat_numeral)

lemma get_all_ok: "length vs = 4 \<Longrightarrow> keys_ok (get_all_key_val level vs)"
  by (auto simp: get_all_key_val_eq keys_ok_def pressed_def list_all_iff)

text \<open>Quiet jiffies before the expiry only count.\<close>

lemma quiet_jiffies:
  assumes "n < d" "d < 2 ^ 31" "key_timer s = Some (jiffies s + of_nat d)"
  shows "run_jiffies HZ level (replicate n False) s = s\<lparr>jiffies := jiffies s + of_nat n\<rparr>"
  using assms
proof (induction n arbitrary: s d)
  case (Suc n)
  let ?s = "s\<lparr>jiffies := jiffies s + 1\<rparr>"
  obtain d' where d: "d = Suc d'" "n < d'" using Suc.prems(1) by (cases d) auto
  then have e: "jiffies s + of_nat d = jiffies ?s + of_nat d'" by simp
  have "\<not> due (jiffies ?s) (jiffies ?s + of_nat d')" by (rule not_due) (use d Suc.prems(2) in simp_all)
  then have "jiffy HZ level False s = ?s"
    unfolding jiffy_def run_timer_def using Suc.prems(3) by (simp add: d(1) add.assoc)
  then show ?case using Suc.IH [of d' ?s] Suc.prems d e by (simp add: add.assoc)
qed simp

text \<open>A burst: edges at most \<open>HZ/100\<close> jiffies apart, given by the quiet jiffies before each.\<close>

definition burst :: "nat list \<Rightarrow> bool list" where
  "burst gaps = concat (map (\<lambda>g. replicate g False @ [True]) gaps)"

definition armed :: "u32 \<Rightarrow> jit_state \<Rightarrow> bool" where
  "armed HZ s \<longleftrightarrow> key_timer s = Some (jiffies s + HZ div 100 + 1)"

lemma armed_after: "armed HZ s \<longleftrightarrow> key_timer s = Some (jiffies s + of_nat (quiet HZ + 1))"
  by (simp add: armed_def add_ac)

lemma burst_silent:
  "armed HZ s \<Longrightarrow> list_all (\<lambda>g. g < quiet HZ) gaps \<Longrightarrow>
    armed HZ (run_jiffies HZ level (burst gaps) s) \<and> keys (run_jiffies HZ level (burst gaps) s) = keys s"
proof (induction gaps arbitrary: s)
  case (Cons g gaps)
  have g: "g < quiet HZ" using Cons.prems(2) by simp
  let ?s = "s\<lparr>jiffies := jiffies s + of_nat g\<rparr>" and ?t = "s\<lparr>jiffies := jiffies s + of_nat g + 1\<rparr>"
  have q: "run_jiffies HZ level (replicate g False) s = ?s"
    using Cons.prems(1) g quiet_bound [of HZ] by (intro quiet_jiffies [of _ "quiet HZ + 1"]) (simp_all add: armed_after)
  obtain d where d: "quiet HZ = g + Suc d" using g by (metis less_iff_Suc_add add_Suc_right)
  have "\<not> due (jiffies ?t) (jiffies ?t + of_nat (Suc d))" by (rule not_due) (use d quiet_bound [of HZ] in simp_all)
  moreover have "key_timer s = Some (jiffies ?t + of_nat (Suc d))"
    using Cons.prems(1) unfolding armed_after d by (simp add: algebra_simps)
  ultimately have "jiffy HZ level True ?s = jit_buttons_irq HZ ?t"
    by (simp add: jiffy_def run_timer_def Let_def del: of_nat_Suc)
  moreover have "armed HZ (jit_buttons_irq HZ ?t)" "keys (jit_buttons_irq HZ ?t) = keys s"
    by (simp_all add: armed_def jit_buttons_irq_def)
  ultimately show ?case
    using Cons.IH [of "jit_buttons_irq HZ ?t"] Cons.prems(2) q by (simp add: burst_def)
qed (simp add: burst_def)

lemma expiry:
  assumes "armed HZ s"
  shows "run_jiffies HZ level (replicate (quiet HZ + 1) False) s =
    s\<lparr>key_timer := None, jiffies := jiffies s + HZ div 100 + 1,
      keys := kery_timer_function (level (jiffies s + HZ div 100 + 1)) (keys s)\<rparr>"
proof -
  have q: "run_jiffies HZ level (replicate (quiet HZ) False) s = s\<lparr>jiffies := jiffies s + of_nat (quiet HZ)\<rparr>"
    using assms quiet_bound [of HZ] by (intro quiet_jiffies [of _ "quiet HZ + 1"]) (simp_all add: armed_after)
  have "replicate (quiet HZ + 1) False = replicate (quiet HZ) False @ [False]"
    by (simp add: replicate_append_same)
  then have "run_jiffies HZ level (replicate (quiet HZ + 1) False) s =
      jiffy HZ level False (s\<lparr>jiffies := jiffies s + of_nat (quiet HZ)\<rparr>)"
    by (simp only: fold_append comp_apply q) simp
  then show ?thesis
    using assms by (simp add: jiffy_def run_timer_def armed_def del: replicate_Suc fold_replicate)
qed

text \<open>C13: A bouncing button is one event. After an edge, any burst of further edges fewer than \<open>HZ/100\<close>
  quiet jiffies apart wakes nobody; \<open>HZ/100 + 1\<close> quiet jiffies after the last edge the reader is
  woken once, and the buttons are those of that moment, whatever they were before.\<close>
theorem burst_is_one_event:
  assumes "armed HZ s" "list_all (\<lambda>g. g < unat (HZ div 100)) gaps" "length (key_vals (keys s)) = 4"
  shows "wakes (keys (run_jiffies HZ level (burst gaps) s)) = wakes (keys s) \<and>
    (let t = run_jiffies HZ level (burst gaps @ replicate (unat (HZ div 100) + 1) False) s in
      wakes (keys t) = wakes (keys s) + 1 \<and> key_timer t = None \<and> fst (jit_poll (keys t)) = POLLIN OR POLLRDNORM \<and>
      key_vals (keys t) = map (\<lambda>i. pressed (level (jiffies t) i)) [0..<4])"
proof -
  let ?u = "run_jiffies HZ level (burst gaps) s"
  have u: "armed HZ ?u" "keys ?u = keys s" using burst_silent [OF assms(1,2)] by simp_all
  show ?thesis
    using assms(3) u expiry [OF u(1), of level] get_all_key_val_eq
    by (simp add: Let_def kery_timer_function_def jit_poll_def del: replicate_Suc)
qed

text \<open>200 jiffies to the second: five edges in eight jiffies, one event.\<close>

definition just_pressed :: jit_state where
  "just_pressed = jit_buttons_irq 200 \<lparr>keys = initial, key_timer = None, jiffies = 7\<rparr>"

theorem burst_is_one_event_witness:
  "wakes (keys (run_jiffies 200 (\<lambda>_ _. 0) (burst [0, 1, 1, 1] @ replicate 3 False) just_pressed)) = 1"
  using burst_is_one_event [of 200 just_pressed "[0, 1, 1, 1]" "\<lambda>_ _. 0"] unat_div [of "200 :: u32" 100]
  by (simp add: armed_def just_pressed_def jit_buttons_irq_def initial_def Let_def del: replicate_Suc)

text \<open>The timer armed by the initialisation with expiry 0 expires in the first jiffy, unless the clock is in the half of
  its range before 0 (where the kernel starts it, five minutes before it wraps): a reader of the
  freshly loaded driver is told of an event that never happened.\<close>
theorem spurious_first_event:
  assumes "0 \<le> sint (now + 1)"
  shows "fst (jit_poll (keys (jit_loaded now))) = 0 \<and>
   fst (jit_poll (keys (jiffy HZ level edge (jit_loaded now)))) = POLLIN OR POLLRDNORM"
  using assms by (simp add: jit_loaded_def initial_def jit_poll_def jiffy_def run_timer_def due_def
      kery_timer_function_def jit_buttons_irq_def Let_def)

theorem spurious_first_event_witness:
  "fst (jit_poll (keys (jiffy 200 (\<lambda>_ _. 1) False (jit_loaded 5)))) = POLLIN OR POLLRDNORM"
  using spurious_first_event [of 5 200 "\<lambda>_ _. 1" False] by simp

section \<open>The event contract\<close>

interpretation jit: event_driver kery_timer_function "jit_read False" "\<lambda>s. fst (jit_poll s)" key_vals get_all_key_val
  by unfold_locales (simp_all add: kery_timer_function_def jit_read_def jit_poll_def)

lemma get_all_length: "length (get_all_key_val level vs) = length vs"
  by (simp add: get_all_key_val_def numeral_eq_Suc)

lemma get_all_fold:
  assumes "es \<noteq> []" "length vs = 4"
  shows "fold get_all_key_val es vs = map (\<lambda>i. pressed (last es i)) [0..<4]"
proof -
  obtain es' e where es: "es = es' @ [e]" using assms(1) by (cases es rule: rev_cases) auto
  have "length (fold get_all_key_val es' vs) = length vs"
    by (induction es' arbitrary: vs) (simp_all add: get_all_length)
  then show ?thesis using es assms(2) by (simp add: get_all_key_val_eq)
qed

text \<open>A read returns the buttons of the last expiry of the timer, and one read uses up all
  expiries before it.\<close>
theorem jit_read_last_expiry:
  assumes "es \<noteq> []" "length (key_vals s) = 4"
  shows "\<exists>w s'. jit_read False 4 (fold kery_timer_function es s) = (4, Some w, s') \<and>
    (\<forall>k < 4. bit w k \<longleftrightarrow> last es k = 0) \<and> fst (jit_poll s') = 0"
proof -
  let ?t = "fold kery_timer_function es s"
  have vals: "key_vals ?t = map (\<lambda>i. pressed (last es i)) [0..<4]"
    using jit.notify_all_keys [of es s] get_all_fold [OF assms] by simp
  then have ok: "keys_ok (key_vals ?t)" by (auto simp: keys_ok_def pressed_def list_all_iff)
  show ?thesis
    using vals bit_pack_keys [OF ok] by (auto simp: jit_read_def jit_poll_def pressed_def)
qed

theorem jit_read_last_expiry_witness:
  "\<exists>w s'. jit_read False 4 (fold kery_timer_function [\<lambda>_. 0, \<lambda>k. if k = 2 then 0 else 1] initial) = (4, Some w, s') \<and>
     bit w 2 \<and> \<not> bit w 1"
  using jit_read_last_expiry [of "[\<lambda>_. 0, \<lambda>k. if k = 2 then 0 else 1]" initial]
  by (auto simp: initial_def)

text \<open>The timer is never given back: a successful load followed by the unload leaves it armed in
  freed module memory.\<close>
theorem jit_timer_leaks:
  assumes "fst (jit_init env) = 0" "chr_valid env" "0 \<le> major_ret env"
  shows "ledger (snd (jit_init env) @ jit_exit) = Some {#Timer#}"
proof -
  have "fst (chrdev_init env) = 0" using assms(1) by (simp add: jit_init_def split_def Let_def)
  then have "snd (chrdev_init env) = [Acq Major, Acq Class, Acq Node]"
    using assms(2,3) by (auto simp: chrdev_init_def chr_valid_def Let_def split: option.splits if_splits)
  then show ?thesis by (simp add: jit_init_def jit_exit_def chrdev_exit_def ledger_def split_def Let_def)
qed

theorem jit_timer_leaks_witness:
  "ledger (snd (jit_init \<lparr>major_ret = 250, class_err = None, node_err = None\<rparr>) @ jit_exit) = Some {#Timer#}"
  by (rule jit_timer_leaks) (simp_all add: Let_def jit_init_def chrdev_init_def chr_valid_def)

end
