(* ===== verification/Gpio.thy ===== *)
theory Gpio
  imports Char_Driver
begin

text \<open>
  The two drivers that work on the port registers directly: the LEDs, \<open>led/led.c\<close>, and the polled
  buttons, \<open>key/key_drv.c\<close>.
\<close>

record port =
  con :: u32
  dat :: u32

definition reads_ports :: "gpio \<Rightarrow> port \<Rightarrow> port \<Rightarrow> bool" where
  "reads_ports gpio f g \<longleftrightarrow>
     (\<forall>n. gpio (GPF n) = of_bool (bit (dat f) n) \<and> gpio (GPG n) = of_bool (bit (dat g) n))"

section \<open>LEDs\<close>

text \<open>
  The \<open>int\<close> the driver copies the user's first bytes over (the machine is little endian); the
  copy stops at the count.
\<close>

primrec word_of_bytes :: "u8 list \<Rightarrow> u32" where
  "word_of_bytes [] = 0"
| "word_of_bytes (b # bs) = ucast b OR push_bit 8 (word_of_bytes bs)"

definition led_write :: "u8 list \<Rightarrow> port \<Rightarrow> int \<times> port" where
  "led_write buf f =
     (let val = word_of_bytes (take 4 buf);
          f = (if val \<noteq> 0 then f\<lparr>dat := dat f AND NOT (push_bit 4 0x07)\<rparr>
               else f\<lparr>dat := dat f OR push_bit 4 0x07\<rparr>)
      in (int (length buf), f))"

text \<open>\<open>map_ok\<close>: whether \<open>ioremap\<close> succeeds; its result is not looked at.\<close>

definition led_init :: "chr_env \<Rightarrow> bool \<Rightarrow> port \<Rightarrow> fault + (int \<times> chr_res event list \<times> port)" where
  "led_init env map_ok f =
     (let (ret, es) = chrdev_init env in
      if ret \<noteq> 0 then Inr (ret, es, f)
      else if \<not> map_ok then Inl NullDeref
      else
        let f = f\<lparr>con := con f AND NOT (push_bit 12 3 OR push_bit 10 3 OR push_bit 8 3)\<rparr>;
            f = f\<lparr>con := con f OR (push_bit 12 1 OR push_bit 10 1 OR push_bit 8 1)\<rparr>;
            f = f\<lparr>dat := dat f OR 0x70\<rparr>
        in Inr (0, es @ [Acq (Iomap 0)], f))"

definition led_exit :: "chr_res event list" where
  "led_exit = Rel (Iomap 0) # chrdev_exit"

text \<open>The two bits of a control register that configure pin \<open>n\<close>: 0 input, 1 output.\<close>

definition pin_mode :: "nat \<Rightarrow> u32 \<Rightarrow> u32" where
  "pin_mode n w = take_bit 2 (drop_bit (2 * n) w)"

lemma bit_pin_mode: "bit (pin_mode n w) k \<longleftrightarrow> k < 2 \<and> bit w (2 * n + k)"
  by (auto simp: pin_mode_def bit_take_bit_iff bit_drop_bit_eq)

lemma bit_push_mask: "bit (push_bit m (mask n) :: u32) k \<longleftrightarrow> m \<le> k \<and> k < m + n \<and> k < 32"
  unfolding bit_push_bit_iff bit_mask_iff by auto

lemma small_masks: "(7 :: u32) = mask 3" "(3 :: u32) = mask 2" "(1 :: u32) = mask 1"
  by (simp_all add: mask_eq_exp_minus_1)

lemma bit_led_mask: "bit (push_bit 4 0x07 :: u32) k \<longleftrightarrow> 4 \<le> k \<and> k < 7"
  unfolding small_masks(1) bit_push_mask by auto

lemma word_of_bytes_zero: "length bs \<le> 4 \<Longrightarrow> word_of_bytes bs = 0 \<longleftrightarrow> list_all (\<lambda>b. b = 0) bs"
proof -
  have bits: "bit (word_of_bytes bs) k \<longleftrightarrow> k < 32 \<and> k div 8 < length bs \<and> bit (bs ! (k div 8)) (k mod 8)" for bs k
  proof (induction bs arbitrary: k)
    case (Cons b bs)
    show ?case
    proof (cases "k < 8")
      case True
      then show ?thesis by (auto simp: bit_or_iff bit_push_bit_iff bit_ucast_iff)
    next
      case False
      then have "k div 8 = Suc ((k - 8) div 8)" "k mod 8 = (k - 8) mod 8" by (simp_all add: le_div_geq le_mod_geq)
      moreover have "\<not> bit b k" using False bit_imp_le_length [of b k] by auto
      ultimately show ?thesis
        using False Cons.IH [of "k - 8"] by (auto simp: bit_or_iff bit_push_bit_iff bit_ucast_iff)
    qed
  qed simp
  assume len: "length bs \<le> 4"
  show ?thesis
  proof
    assume zero: "word_of_bytes bs = 0"
    have "bs ! i = 0" if "i < length bs" for i
    proof (rule bit_eqI)
      fix k
      assume "possible_bit TYPE(u8) k"
      then have k: "k < 8" by (simp add: possible_bit_word)
      have idx: "(8 * i + k) div 8 = i" "(8 * i + k) mod 8 = k" "8 * i + k < 32"
        using k that len by simp_all
      show "bit (bs ! i) k = bit 0 k"
        using bits [of bs "8 * i + k"] zero that unfolding idx by (simp add: idx(3))
    qed
    then show "list_all (\<lambda>b. b = 0) bs" by (simp add: list_all_length)
  next
    assume "list_all (\<lambda>b. b = 0) bs"
    then show "word_of_bytes bs = 0" by (induction bs) auto
  qed
qed

text \<open>A write switches all three LEDs on (pins low) when one of its first four bytes is not zero and off
  when they are all zero; it returns the whole count, and the other pins of the port keep their
  values. Only the last write counts.\<close>
theorem led_write_effect:
  "fst (led_write buf f) = int (length buf) \<and> con (snd (led_write buf f)) = con f \<and>
   (\<forall>k. bit (dat (snd (led_write buf f))) k \<longleftrightarrow>
     (if k \<in> {4, 5, 6} then list_all (\<lambda>b. b = 0) (take 4 buf) else bit (dat f) k)) \<and>
   snd (led_write buf (snd (led_write other f))) = snd (led_write buf f)"
proof -
  have v: "word_of_bytes (take 4 buf) = 0 \<longleftrightarrow> list_all (\<lambda>b. b = 0) (take 4 buf)" for buf
    by (rule word_of_bytes_zero) simp
  have off: "bit (x AND NOT (push_bit 4 0x07)) k \<longleftrightarrow> bit x k \<and> k \<notin> {4, 5, 6}" for x :: u32 and k
    using bit_imp_le_length [of x k] unfolding bit_and_iff bit_not_iff bit_led_mask by auto
  have on: "bit (x OR push_bit 4 0x07) k \<longleftrightarrow> bit x k \<or> k \<in> {4, 5, 6}" for x :: u32 and k
    unfolding bit_or_iff bit_led_mask by auto
  have set: "dat (snd (led_write buf f)) = (if list_all (\<lambda>b. b = 0) (take 4 buf) then dat f OR push_bit 4 0x07
      else dat f AND NOT (push_bit 4 0x07))" for buf f
    by (simp add: led_write_def v)
  have con: "con (snd (led_write buf f)) = con f" for buf f by (simp add: led_write_def)
  have bits: "bit (dat (snd (led_write buf f))) k \<longleftrightarrow>
      (if k \<in> {4, 5, 6} then list_all (\<lambda>b. b = 0) (take 4 buf) else bit (dat f) k)" for buf f k
    unfolding set by (simp only: if_distrib [of "\<lambda>x. bit x k"] off on) auto
  have "dat (snd (led_write buf (snd (led_write other f)))) = dat (snd (led_write buf f))"
    by (rule bit_eqI) (simp only: bits if_cancel split: if_split, auto)
  then have "snd (led_write buf (snd (led_write other f))) = snd (led_write buf f)"
    by (intro port.equality) (simp_all add: con)
  moreover have "fst (led_write buf f) = int (length buf)" by (simp add: led_write_def)
  ultimately show ?thesis using bits con by simp
qed

lemma led_con_bits:
  "bit (push_bit 12 3 OR push_bit 10 3 OR push_bit 8 3 :: u32) k \<longleftrightarrow> 8 \<le> k \<and> k < 14"
  "bit (push_bit 12 1 OR push_bit 10 1 OR push_bit 8 1 :: u32) k \<longleftrightarrow> k = 8 \<or> k = 10 \<or> k = 12"
  unfolding small_masks(2,3) bit_or_iff bit_push_mask by auto

text \<open>After a successful initialisation the three LED pins are outputs and high (the LEDs are off), and
  the modes and levels of all other pins of the port are what they were.\<close>
theorem led_init_pins:
  assumes "led_init env map_ok f = Inr (0, es, f')"
  shows "(\<forall>n < 16. pin_mode n (con f') = (if n \<in> {4, 5, 6} then 1 else pin_mode n (con f))) \<and>
    (\<forall>k. bit (dat f') k \<longleftrightarrow> k \<in> {4, 5, 6} \<or> bit (dat f) k)"
proof -
  let ?clr = "push_bit 12 3 OR push_bit 10 3 OR push_bit 8 3 :: u32"
  let ?new = "push_bit 12 1 OR push_bit 10 1 OR push_bit 8 1 :: u32"
  have f': "con f' = (con f AND NOT ?clr) OR ?new" "dat f' = dat f OR 0x70"
    using assms by (auto simp: led_init_def Let_def split_def split: if_splits)
  have "pin_mode n (con f') = (if n \<in> {4, 5, 6} then 1 else pin_mode n (con f))" if n: "n < 16" for n
  proof (rule bit_eqI)
    fix k :: nat
    have new: "bit (con f') j \<longleftrightarrow> (bit (con f) j \<and> \<not> (8 \<le> j \<and> j < 14)) \<or> j = 8 \<or> j = 10 \<or> j = 12" for j
      unfolding f' bit_or_iff [of _ ?new] led_con_bits(2) bit_and_iff bit_not_iff led_con_bits(1)
      using bit_imp_le_length [of "con f" j] by auto
    have "k < 2 \<longleftrightarrow> k = 0 \<or> k = 1" by auto
    then show "bit (pin_mode n (con f')) k = bit (if n \<in> {4, 5, 6} then 1 else pin_mode n (con f)) k"
      by (auto simp: bit_pin_mode new bit_1_iff)
  qed
  moreover have "bit (dat f') k \<longleftrightarrow> k \<in> {4, 5, 6} \<or> bit (dat f) k" for k
  proof -
    have "(0x70 :: u32) = push_bit 4 0x07" by simp
    then have "bit (0x70 :: u32) k \<longleftrightarrow> k \<in> {4, 5, 6}" using bit_led_mask [of k] by auto
    then show ?thesis unfolding f' bit_or_iff by auto
  qed
  ultimately show ?thesis by blast
qed

definition chr_env0 :: chr_env where
  "chr_env0 = \<lparr>major_ret = 250, class_err = None, node_err = None\<rparr>"

theorem led_init_pins_witness:
  "\<exists>es f'. led_init chr_env0 True \<lparr>con = 0xffff, dat = 0x80\<rparr> = Inr (0, es, f') \<and>
     pin_mode 5 (con f') = 1 \<and> pin_mode 3 (con f') = 3"
proof -
  obtain es f' where i: "led_init chr_env0 True \<lparr>con = 0xffff, dat = 0x80\<rparr> = Inr (0, es, f')"
    by (auto simp: led_init_def chrdev_init_def chr_env0_def Let_def)
  have "pin_mode 5 (con f') = 1 \<and> pin_mode 3 (con f') = pin_mode 3 0xffff"
    using led_init_pins [OF i] by simp
  moreover have "pin_mode 3 0xffff = 3" by (simp add: pin_mode_def)
  ultimately show ?thesis using i by auto
qed

section \<open>Polled buttons\<close>

definition key_open :: "port \<Rightarrow> port \<Rightarrow> int \<times> port \<times> port" where
  "key_open f g =
     (0, f\<lparr>con := con f AND NOT (push_bit 0 0x3 OR push_bit (2 * 2) 0x3)\<rparr>,
      g\<lparr>con := con g AND NOT (push_bit (2 * 2) 0x3 OR push_bit (2 * 11) 0x3)\<rparr>)"

definition key_write :: "u32 \<Rightarrow> int" where
  "key_write cnt = sint cnt"

text \<open>The four bytes for the user, or the error; \<open>fault\<close>: the copy fails, which is not noticed.\<close>

definition key_read :: "bool \<Rightarrow> u32 \<Rightarrow> port \<Rightarrow> port \<Rightarrow> int \<times> u8 list option" where
  "key_read fault cnt f g =
     (if cnt \<noteq> 4 then (- EINVAL, None)
      else
        let val = dat f;
            k0 = (if val AND push_bit 0 0x1 \<noteq> 0 then 0 else 1);
            k1 = (if val AND push_bit 2 0x1 \<noteq> 0 then 0 else 1);
            val = dat g;
            k2 = (if val AND push_bit 3 0x1 \<noteq> 0 then 0 else 1);
            k3 = (if val AND push_bit 11 0x1 \<noteq> 0 then 0 else 1)
        in (sint cnt, if fault then None else Some [k0, k1, k2, k3]))"

text \<open>Both \<open>ioremap\<close>s succeed here (nothing is read from the mappings before a file is opened).\<close>

definition key_init :: "chr_env \<Rightarrow> int \<times> chr_res event list" where
  "key_init env =
     (let (ret, es) = chrdev_init env in
      if ret \<noteq> 0 then (ret, es) else (0, es @ [Acq (Iomap 0), Acq (Iomap 1)]))"

definition key_exit :: "chr_res event list" where
  "key_exit = Rel (Iomap 0) # chrdev_exit"

lemma and_push_1: "(w :: u32) AND push_bit n 1 \<noteq> 0 \<longleftrightarrow> bit w n"
  by (simp add: and_exp_eq_0_iff_not_bit push_bit_of_1)

lemma polled_read:
  "key_read fault 4 f g = (4, if fault then None else Some [of_bool (\<not> bit (dat f) 0), of_bool (\<not> bit (dat f) 2),
     of_bool (\<not> bit (dat g) 3), of_bool (\<not> bit (dat g) 11)])"
  unfolding key_read_def and_push_1 Let_def by simp

text \<open>A read of four bytes returns one byte per button, 1 when its pin is low: GPF0, GPF2, GPG3 and
  GPG11 in this order, and reports success even if they could not be copied; any other count is refused
  with \<open>-EINVAL\<close>.\<close>
theorem key_read_levels:
  "key_read fault cnt f g = (if cnt = 4 then (4, if fault then None else Some [of_bool (\<not> bit (dat f) 0), of_bool (\<not> bit (dat f) 2),
     of_bool (\<not> bit (dat g) 3), of_bool (\<not> bit (dat g) 11)]) else (- EINVAL, None))"
  unfolding key_read_def and_push_1 Let_def by simp

text \<open>Opening the buttons makes GPF0, GPF2 and GPG11 inputs, but not GPG3, which a read samples: the mode
  that is cleared is GPG2's. Every pin but these four keeps its mode.\<close>
theorem key_open_modes:
  "(\<forall>n. pin_mode n (con (fst (snd (key_open f g)))) = (if n = 0 \<or> n = 2 then 0 else pin_mode n (con f))) \<and>
   (\<forall>n. pin_mode n (con (snd (snd (key_open f g)))) = (if n = 2 \<or> n = 11 then 0 else pin_mode n (con g))) \<and>
   pin_mode 3 (con (snd (snd (key_open f g)))) = pin_mode 3 (con g) \<and>
   dat (fst (snd (key_open f g))) = dat f \<and> dat (snd (snd (key_open f g))) = dat g"
proof -
  have clr: "bit (w AND NOT (push_bit (2 * a) 0x3 OR push_bit (2 * b) 0x3)) j \<longleftrightarrow>
      bit w j \<and> j div 2 \<noteq> a \<and> j div 2 \<noteq> b" if "a < 16" "b < 16" for a b j and w :: u32
    using that bit_imp_le_length [of w j]
    unfolding small_masks(2) bit_and_iff bit_not_iff bit_or_iff bit_push_mask by auto
  have modes: "pin_mode n (w AND NOT (push_bit (2 * a) 0x3 OR push_bit (2 * b) 0x3)) =
      (if n = a \<or> n = b then 0 else pin_mode n w)" if "a < 16" "b < 16" for a b n and w :: u32
    by (rule bit_eqI) (simp only: bit_pin_mode clr [OF that] if_distrib [of "\<lambda>x. bit x _"], auto)
  have con: "con (fst (snd (key_open f g))) = con f AND NOT (push_bit (2 * 0) 0x3 OR push_bit (2 * 2) 0x3)"
      "con (snd (snd (key_open f g))) = con g AND NOT (push_bit (2 * 2) 0x3 OR push_bit (2 * 11) 0x3)"
    by (simp_all add: key_open_def)
  show ?thesis
    unfolding con using modes [of 0 2 _ "con f"] modes [of 2 11 _ "con g"] by (simp add: key_open_def)
qed

text \<open>Loading and unloading the polled buttons leaves one of the two register mappings behind.\<close>
theorem key_exit_leaks_map:
  assumes "chr_valid env" "0 \<le> major_ret env" "fst (key_init env) = 0"
  shows "ledger (snd (key_init env) @ key_exit) = Some {#Iomap 1#}"
proof -
  have "chrdev_init env = (0, [Acq Major, Acq Class, Acq Node])"
    using assms by (auto simp: key_init_def chrdev_init_def chr_valid_def Let_def split: option.splits if_splits)
  then show ?thesis by (simp add: key_init_def key_exit_def chrdev_exit_def ledger_def)
qed

theorem key_exit_leaks_map_witness:
  "ledger (snd (key_init chr_env0) @ key_exit) = Some {#Iomap 1#}"
  by (rule key_exit_leaks_map) (simp_all add: chr_env0_def chr_valid_def key_init_def chrdev_init_def)

end
