(* ===== verification/Key_Preempt.thy ===== *)
theory Key_Preempt
  imports Req_Drv Key_Jitter Gpio
begin

text \<open>
  The button drivers under interleaving. A driver that reports nothing to read has told its reader
  everything, unless its last read was interrupted or its copy failed; what an interrupt in the
  middle of a read does. And the three kinds of driver of the same buttons compared.
\<close>

section \<open>Runs\<close>

text \<open>
  A read of four bytes that interrupts \<open>es\<close> come into: \<open>at k\<close> of them have come when the value of button \<open>k\<close> is
  loaded, and the flag is cleared when all have. The result is the word, and the state.
\<close>

definition torn_read :: "(nat \<Rightarrow> nat) \<Rightarrow> (nat \<times> int) list \<Rightarrow> key_state \<Rightarrow> u32 \<times> key_state" where
  "torn_read at es s =
     (pack_keys (map (\<lambda>k. key_vals (fold buttons_irq (take (at k) es) s) ! k) [0..<4]),
      (fold buttons_irq es s)\<lparr>ev_press := 0\<rparr>)"

lemma torn_read_whole: "my_key_read False 4 s = (case torn_read at [] s of (w, t) \<Rightarrow> (4, Some w, t))"
  by (simp add: torn_read_def my_key_read_def pack_keys_def upt_conv_Cons numeral_eq_Suc)

text \<open>
  A run of the interrupt driven driver: interrupts and file operations in any order, reads whose copy fails and
  reads that are interrupted included. The second component is the word the reader has last been given, 0
  before the first read; the third says that the last read of four bytes was interrupted, or could not be copied.
\<close>

inductive key_run :: "key_state \<Rightarrow> u32 \<Rightarrow> bool \<Rightarrow> bool" where
  loaded: "key_run initial 0 False"
| interrupt: "key_run s w stale \<Longrightarrow> k < 4 \<Longrightarrow> key_run (buttons_irq (k, level) s) w stale"
| read_word: "key_run s w stale \<Longrightarrow> my_key_read False 4 s = (ret, Some w', s') \<Longrightarrow> key_run s' w' False"
| copy_failed: "key_run s w stale \<Longrightarrow> my_key_read True 4 s = (ret, None, s') \<Longrightarrow> key_run s' w True"
| interrupted: "key_run s w stale \<Longrightarrow> list_all (\<lambda>e. fst e < 4) es \<Longrightarrow> torn_read at es s = (w', s') \<Longrightarrow>
    key_run s' (if fault then w else w') True"
| refused: "key_run s w stale \<Longrightarrow> my_key_read fault n s = (- EINVAL, None, s') \<Longrightarrow> key_run s' w stale"
| written: "key_run s w stale \<Longrightarrow> key_run (snd (my_key_write n s)) w stale"
| opened: "key_run s w stale \<Longrightarrow> key_run (snd (my_key_open request s)) w stale"
| closed: "key_run s w stale \<Longrightarrow> key_run (snd (my_key_close free s)) w stale"
| notified: "key_run s w stale \<Longrightarrow> key_run (snd (my_key_fasync helper fd on s)) w stale"

inductive_cases key_runE: "key_run s w stale"

lemma key_vals_kept [simp]:
  "key_vals (snd (my_key_open request s)) = key_vals s" "ev_press (snd (my_key_open request s)) = ev_press s"
  "key_vals (snd (my_key_close free s)) = key_vals s" "ev_press (snd (my_key_close free s)) = ev_press s"
  "key_vals (snd (my_key_fasync helper fd on s)) = key_vals s" "ev_press (snd (my_key_fasync helper fd on s)) = ev_press s"
  "snd (my_key_write n s) = s"
  by (simp_all add: my_key_open_def my_key_close_def my_key_fasync_def my_key_write_def split_def Let_def)

lemma key_run_current:
  "key_run s w stale \<Longrightarrow> keys_ok (key_vals s) \<and> (ev_press s = 0 \<longrightarrow> stale \<or> w = pack_keys (key_vals s))"
proof (induction rule: key_run.induct)
  case loaded
  then show ?case by (simp add: initial_def keys_ok_def pack_keys_def)
next
  case (interrupt s w stale k level)
  then show ?case by (simp add: buttons_irq_def upd_ok)
next
  case (read_word s w stale ret w' s')
  then show ?case by (auto simp: my_key_read_def)
next
  case (copy_failed s w stale ret s')
  then show ?case by (auto simp: my_key_read_def)
next
  case (interrupted s w stale es at w' s' fault)
  then have "key_vals s' = fold (\<lambda>e vs. vs[fst e := pressed (snd e)]) es (key_vals s)"
    by (auto simp: torn_read_def irq.notify_all_keys)
  then show ?case using interrupted.IH upds_ok by simp
next
  case (refused s w stale fault n s')
  then have "s' = s" by (auto simp: my_key_read_def Let_def split: if_splits)
  then show ?case using refused.IH by simp
qed auto

text \<open>C16: In every state that interrupts, reads (whole, interrupted, failed and refused ones), writes, opens,
  closes and requests for signals lead to, if \<open>poll\<close> says there is nothing to read then the last word
  the reader was given is what the buttons were at their last interrupts, unless the last read of four bytes was
  interrupted or could not be copied: those are the only ways to miss something, and the next
  whole read ends the lapse.\<close>
theorem quiet_means_current:
  assumes "key_run s w stale" "fst (my_key_poll s) = 0"
  shows "stale \<or> w = pack_keys (key_vals s) \<and> (\<forall>k. bit w k \<longleftrightarrow> k < 4 \<and> key_vals s ! k = 1)"
proof -
  have "ev_press s = 0"
    using assms(2) by (auto simp: my_key_poll_def POLLIN_def POLLRDNORM_def split: if_splits)
  then have "stale \<or> w = pack_keys (key_vals s)" "keys_ok (key_vals s)" using key_run_current [OF assms(1)] by simp_all
  then show ?thesis by (auto simp: bit_pack_keys)
qed

text \<open>A read whose copy fails, and after it an interrupt and a whole read.\<close>

theorem quiet_means_current_witness:
  "\<exists>s. key_run s 4 False \<and> fst (my_key_poll s) = 0 \<and> key_vals s ! 2 = 1"
proof -
  let ?s = "initial\<lparr>ev_press := 0\<rparr>" let ?t = "buttons_irq (2, 0) ?s"
  have f: "my_key_read True 4 initial = (4, None, ?s)"
    by (simp add: my_key_read_def)
  have r: "my_key_read False 4 ?t = (4, Some 4, ?t\<lparr>ev_press := 0\<rparr>)"
    by (simp add: my_key_read_def buttons_irq_def initial_def pack_keys_def pressed_def)
  have run: "key_run (?t\<lparr>ev_press := 0\<rparr>) 4 False"
    by (rule key_run.read_word [OF key_run.interrupt [OF key_run.copy_failed [OF key_run.loaded f]] r]) simp
  have quiet: "fst (my_key_poll (?t\<lparr>ev_press := 0\<rparr>)) = 0" by (simp add: my_key_poll_def)
  have "bit (4 :: u32) 2" by (simp add: bit_numeral_rec)
  with quiet_means_current [OF run quiet] run quiet show ?thesis by blast
qed

section \<open>An interrupt inside a read\<close>

text \<open>
  A read in two steps, as the code takes them: it packs the buttons into a word, and, after
  the copy to the user, clears the flag. An event in between changes the buttons and sets the
  flag, which is then cleared.
\<close>

locale split_reader = event_driver +
  fixes finish :: "'b \<Rightarrow> 'b"
  assumes read_split: "read 4 s = (4, Some (pack_keys (keys s)), finish s)"
begin

lemma finish_clears: "poll (finish s) = 0" "keys (finish s) = keys s"
  using read_clears [of s] by (simp_all add: read_split)

lemma preempted_read:
  "poll (finish (fold notify es s)) = 0" "keys (finish (fold notify es s)) = fold upd es (keys s)"
  by (simp_all add: finish_clears notify_all_keys)

text \<open>The next event brings the reader up to date.\<close>

lemma caught_up:
  "fst (snd (read 4 (notify e (finish (fold notify es s))))) = Some (pack_keys (upd e (fold upd es (keys s))))"
  by (simp add: read_word notify_keys preempted_read)

end

definition clear_ev_press :: "key_state \<Rightarrow> key_state" where
  "clear_ev_press s = s\<lparr>ev_press := 0\<rparr>"

interpretation irq_split: split_reader buttons_irq "my_key_read False" "\<lambda>s. fst (my_key_poll s)" key_vals
  "\<lambda>e vs. vs[fst e := pressed (snd e)]" clear_ev_press
  by unfold_locales (simp add: my_key_read_def clear_ev_press_def)

interpretation req_split: split_reader req_buttons_irq "req_read False" "\<lambda>s. fst (req_poll s)" key_vals
  "\<lambda>e vs. vs[fst e := pressed (snd e)]" clear_ev_press
  by unfold_locales (simp add: req_read_def clear_ev_press_def)

interpretation jit_split: split_reader kery_timer_function "jit_read False" "\<lambda>s. fst (jit_poll s)" key_vals
  get_all_key_val clear_ev_press
  by unfold_locales (simp add: jit_read_def clear_ev_press_def)

text \<open>C30: A button that changes while a read is under way is lost: the read returns the buttons as they
  were before, the flag of the new event is cleared with the old one's, \<open>poll\<close> reports nothing, and the
  reader's word stays wrong until another button moves.\<close>
theorem preempted_read_loses_event:
  assumes "keys_ok (key_vals s)" "k < 4" "pressed level \<noteq> key_vals s ! k"
  shows "(let w = pack_keys (key_vals s); t = clear_ev_press (buttons_irq (k, level) s) in
    my_key_read False 4 s = (4, Some w, clear_ev_press s) \<and> fst (my_key_poll t) = 0 \<and>
    w \<noteq> pack_keys (key_vals t) \<and>
    fst (snd (my_key_read False 4 (buttons_irq e t))) =
      Some (pack_keys ((key_vals s)[k := pressed level, fst e := pressed (snd e)])))"
proof -
  let ?t = "clear_ev_press (buttons_irq (k, level) s)"
  have t: "key_vals ?t = (key_vals s)[k := pressed level]" "fst (my_key_poll ?t) = 0"
    using irq_split.preempted_read [of "[(k, level)]" s] by simp_all
  have ok: "keys_ok (key_vals ?t)" using assms(1) by (simp add: t(1) upd_ok)
  have "length (key_vals s) = 4" using assms(1) by (simp add: keys_ok_def)
  then have "key_vals ?t ! k = pressed level" using assms(2) t(1) by simp
  moreover have "key_vals s ! k = 0 \<or> key_vals s ! k = 1" using assms(1,2) by (rule keys_okD)
  ultimately have "bit (pack_keys (key_vals s)) k \<noteq> bit (pack_keys (key_vals ?t)) k"
    using assms(2,3) by (auto simp: bit_pack_keys [OF assms(1)] bit_pack_keys [OF ok] pressed_def split: if_splits)
  then have "pack_keys (key_vals s) \<noteq> pack_keys (key_vals ?t)" by metis
  then show ?thesis
    using t irq_split.read_split [of s] irq_split.caught_up [of e "[(k, level)]" s] by (simp add: Let_def)
qed

theorem preempted_read_loses_event_witness:
  "fst (my_key_poll (clear_ev_press (buttons_irq (1, 0) initial))) = 0 \<and>
   pack_keys (key_vals initial) \<noteq> pack_keys (key_vals (clear_ev_press (buttons_irq (1, 0) initial)))"
  using preempted_read_loses_event [of initial 1 0 "(0, 0)"]
  by (simp add: initial_def keys_ok_def pressed_def Let_def)

section \<open>The drivers of the buttons agree\<close>

lemma pack_keys_eqI:
  assumes "keys_ok vs" "keys_ok ws" "\<forall>k < 4. vs ! k = 1 \<longleftrightarrow> ws ! k = 1"
  shows "pack_keys vs = pack_keys ws"
  by (rule bit_eqI) (use assms in \<open>auto simp: bit_pack_keys\<close>)

lemma pin_events: "fold pin_irq es s = fold buttons_irq (map (\<lambda>e. (fst e, snd e (key_pins ! fst e))) es) s"
  by (induction es arbitrary: s) (simp_all add: pin_irq_def split_def)

lemma pins_read:
  assumes "reads_ports gpio f g"
  shows "map (\<lambda>k. of_bool (gpio (key_pins ! k) = 0)) [0..<4] =
      [of_bool (\<not> bit (dat f) 0), of_bool (\<not> bit (dat f) 2), of_bool (\<not> bit (dat g) 3), of_bool (\<not> bit (dat g) 11)]"
    "k < 4 \<Longrightarrow> pin_levels gpio k = gpio (key_pins ! k)"
  using assms by (auto simp: reads_ports_def key_pins_def pin_levels_def jit_pins_def upt_conv_Cons)

text \<open>C20: Three drivers, one answer: the interrupt driven buttons, settled, that is, if the level of every pin
  of its table at its last interrupt is its level now; the debounced ones after an expiry of their timer; and the
  polled ones, which read the bits of the port registers: they tell the reader the same, as a word of
  four bits or as four bytes. The tables of pins of the first two have to name the pins of those bits.\<close>
theorem drivers_agree:
  assumes "keys_ok (key_vals s)" "length (key_vals j) = 4" and gpio: "reads_ports gpio f g"
    and settled: "\<forall>k < 4. last_level k (map (\<lambda>e. (fst e, snd e (key_pins ! fst e))) es) (key_vals s ! k = 1) \<longleftrightarrow>
      gpio (key_pins ! k) = 0"
  shows "\<exists>w. fst (snd (my_key_read False 4 (fold pin_irq es s))) = Some w \<and>
    fst (snd (jit_read False 4 (kery_timer_function (pin_levels gpio) j))) = Some w \<and>
    snd (key_read False 4 f g) = Some (map (\<lambda>k. of_bool (bit w k)) [0..<4])"
proof -
  let ?es = "map (\<lambda>e. (fst e, snd e (key_pins ! fst e))) es"
  let ?is = "key_vals (fold pin_irq es s)" and ?js = "get_all_key_val (pin_levels gpio) (key_vals j)"
  have is_vals: "?is = fold (\<lambda>e vs. vs[fst e := pressed (snd e)]) ?es (key_vals s)"
    unfolding pin_events by (rule irq.notify_all_keys)
  have ok: "keys_ok ?is" "keys_ok ?js"
    unfolding is_vals by (rule upds_ok [OF assms(1)], rule get_all_ok [OF assms(2)])
  have js: "?js ! k = 1 \<longleftrightarrow> gpio (key_pins ! k) = 0" if "k < 4" for k
    unfolding get_all_key_val_eq [OF assms(2)] using that by (simp add: pressed_def pins_read(2) [OF gpio])
  have "?is ! k = 1 \<longleftrightarrow> ?js ! k = 1" if "k < 4" for k
    unfolding is_vals fold_level [OF assms(1) that] js [OF that] using settled that by blast
  then have w: "pack_keys ?is = pack_keys ?js" by (intro pack_keys_eqI [OF ok]) blast
  have "bit (pack_keys ?js) k \<longleftrightarrow> gpio (key_pins ! k) = 0" if "k < 4" for k
    unfolding bit_pack_keys [OF ok(2)] js [OF that] using that by simp
  then have "map (\<lambda>k. of_bool (bit (pack_keys ?js) k)) [0..<4] = map (\<lambda>k. of_bool (gpio (key_pins ! k) = 0) :: u8) [0..<4]"
    by (simp add: list_eq_iff_nth_eq)
  then have "snd (key_read False 4 f g) = Some (map (\<lambda>k. of_bool (bit (pack_keys ?js) k)) [0..<4])"
    by (simp add: polled_read pins_read(1) [OF gpio])
  then show ?thesis
    using w by (simp add: my_key_read_def jit_read_def kery_timer_function_def Let_def)
qed

text \<open>Pin GPF0 goes low and high again, GPG3 goes low.\<close>

definition levels :: "port \<Rightarrow> port \<Rightarrow> gpio" where
  "levels f g p = (case p of GPF n \<Rightarrow> of_bool (bit (dat f) n) | GPG n \<Rightarrow> of_bool (bit (dat g) n))"

theorem drivers_agree_witness:
  "\<exists>w. fst (snd (my_key_read False 4 (fold pin_irq [(0, levels \<lparr>con = 0, dat = 0xfe\<rparr> \<lparr>con = 0, dat = 0xfff\<rparr>),
      (0, levels \<lparr>con = 0, dat = 0xff\<rparr> \<lparr>con = 0, dat = 0xfff\<rparr>),
      (2, levels \<lparr>con = 0, dat = 0xff\<rparr> \<lparr>con = 0, dat = 0xff7\<rparr>)] initial))) = Some w \<and>
    snd (key_read False 4 \<lparr>con = 0, dat = 0xff\<rparr> \<lparr>con = 0, dat = 0xff7\<rparr>) = Some (map (\<lambda>k. of_bool (bit w k)) [0..<4])"
proof -
  let ?f = "\<lparr>con = 0, dat = 0xff\<rparr> :: port" and ?g = "\<lparr>con = 0, dat = 0xff7\<rparr> :: port"
  let ?es = "[(0, levels \<lparr>con = 0, dat = 0xfe\<rparr> \<lparr>con = 0, dat = 0xfff\<rparr>), (0, levels ?f \<lparr>con = 0, dat = 0xfff\<rparr>), (2, levels ?f ?g)]"
  have gpio: "reads_ports (levels ?f ?g) ?f ?g" by (simp add: reads_ports_def levels_def)
  have settled: "\<forall>k < 4. last_level k (map (\<lambda>e. (fst e, snd e (key_pins ! fst e))) ?es) (key_vals initial ! k = 1) \<longleftrightarrow>
      levels ?f ?g (key_pins ! k) = 0"
    by (simp add: All_less_Suc numeral_eq_Suc initial_def levels_def key_pins_def bit_numeral_rec)
  show ?thesis using drivers_agree [OF _ _ gpio settled, of initial] by (auto simp: initial_def keys_ok_def)
qed

end
