(* ===== verification/Key_Test.thy ===== *)
theory Key_Test
  imports Key_Preempt
begin

text \<open>
  The test programs of the button drivers, \<open>key_irq/key_test.c\<close> and \<open>key_jitter/key_test.c\<close> (the same
  text), \<open>test_key_signal.c\<close> of both directories, and \<open>key/key_loop_test.c\<close>; and what they print when they
  run over the drivers. The programs do not end: what they print in their first rounds is modelled, for
  any number of rounds. A variable that was never written is \<open>None\<close>.
\<close>

section \<open>The programs\<close>

text \<open>
  \<open>key_test\<close>: a round is what \<open>poll\<close> returned, and the word \<open>read\<close> stored, if it did; its return value is
  not looked at. The result is the return value, if \<open>main\<close> returns, and what is printed.
\<close>

primrec key_test_loop :: "(int \<times> u32 option) list \<Rightarrow> u32 option \<Rightarrow> u32 option list" where
  "key_test_loop [] key_val = []"
| "key_test_loop (r # rs) key_val =
     (if fst r = 0 then key_test_loop rs key_val
      else let key_val = (case snd r of None \<Rightarrow> key_val | Some w \<Rightarrow> Some w)
        in key_val # key_test_loop rs key_val)"

definition key_test_main :: "int \<Rightarrow> (int \<times> u32 option) list \<Rightarrow> int option \<times> u32 option list" where
  "key_test_main fd rounds = (if fd < 0 then (Some (- 1), []) else (None, key_test_loop rounds None))"

text \<open>
  \<open>test_key_signal\<close> and the system it runs on: the driver's state, whether \<open>SIGIO\<close> has \<open>signal_fun\<close> as its
  handler, the process the open file's signals go to, and the file's flags.
\<close>

record sig_sys =
  drv :: key_state
  sig_handler :: bool
  f_owner :: "int option"
  f_flags :: u32

definition O_RDWR :: u32 where "O_RDWR = 2"
definition FASYNC :: u32 where "FASYNC = 0x2000"

text \<open>
  The system calls: \<open>signal(SIGIO, &signal_fun)\<close>, an \<open>open\<close> that succeeds, and \<open>fcntl\<close> with \<open>F_SETOWN\<close>, \<open>F_GETFL\<close> and
  \<open>F_SETFL\<close>. The last calls the driver when \<open>FASYNC\<close> changes, and keeps the old flags if it fails.
\<close>

definition sys_signal :: "sig_sys \<Rightarrow> sig_sys" where
  "sys_signal s = s\<lparr>sig_handler := True\<rparr>"

definition sys_open :: "(key_state \<Rightarrow> int \<times> key_state) \<Rightarrow> sig_sys \<Rightarrow> sig_sys" where
  "sys_open drv_open s = s\<lparr>drv := snd (drv_open (drv s)), f_owner := None, f_flags := O_RDWR\<rparr>"

definition f_setown :: "int \<Rightarrow> sig_sys \<Rightarrow> sig_sys" where
  "f_setown pid s = s\<lparr>f_owner := Some pid\<rparr>"

definition f_setfl :: "(nat \<Rightarrow> bool \<Rightarrow> key_state \<Rightarrow> int \<times> key_state) \<Rightarrow> nat \<Rightarrow> u32 \<Rightarrow> sig_sys \<Rightarrow> sig_sys" where
  "f_setfl drv_fasync fd fl s =
     (let on = (fl AND FASYNC \<noteq> 0) in
      if on \<noteq> (f_flags s AND FASYNC \<noteq> 0) then
        let (ret, d) = drv_fasync fd on (drv s); s = s\<lparr>drv := d\<rparr>
        in if ret < 0 then s else s\<lparr>f_flags := fl\<rparr>
      else s\<lparr>f_flags := fl\<rparr>)"

text \<open>
  A signal is pending for the process if the driver signalled its file and the file is the process's: once,
  however often. Without a handler it ends the process.
\<close>

definition sigio_pending :: "int \<Rightarrow> nat \<Rightarrow> sig_sys \<Rightarrow> sig_sys \<Rightarrow> bool" where
  "sigio_pending pid fd s t \<longleftrightarrow>
     f_owner t = Some pid \<and> count_list (sigios (drv s)) fd < count_list (sigios (drv t)) fd"

datatype ending = Exits int | Killed | Sleeping

text \<open>The handler reads into the global \<open>key_val\<close>, 0 at first, and prints it.\<close>

definition signal_fun ::
  "(u32 \<Rightarrow> key_state \<Rightarrow> int \<times> u32 option \<times> key_state) \<Rightarrow> sig_sys \<Rightarrow> u32 \<Rightarrow> u32 \<times> sig_sys" where
  "signal_fun drv_read s key_val =
     (let (ret, word, d) = drv_read 4 (drv s);
          key_val = (case word of None \<Rightarrow> key_val | Some w \<Rightarrow> w)
      in (key_val, s\<lparr>drv := d\<rparr>))"

text \<open>The endless loop of \<open>main\<close>: the events between two points at which the process takes a signal.\<close>

primrec signal_loop ::
  "('e \<Rightarrow> key_state \<Rightarrow> key_state) \<Rightarrow> (u32 \<Rightarrow> key_state \<Rightarrow> int \<times> u32 option \<times> key_state) \<Rightarrow> int \<Rightarrow> nat \<Rightarrow>
    'e list list \<Rightarrow> sig_sys \<Rightarrow> u32 \<Rightarrow> ending \<times> u32 list" where
  "signal_loop notify drv_read pid fd [] s key_val = (Sleeping, [])"
| "signal_loop notify drv_read pid fd (es # ess) s key_val =
     (let t = s\<lparr>drv := fold notify es (drv s)\<rparr> in
      if \<not> sigio_pending pid fd s t then signal_loop notify drv_read pid fd ess t key_val
      else if \<not> sig_handler t then (Killed, [])
      else
        let (key_val, t) = signal_fun drv_read t key_val;
            (ending, printed) = signal_loop notify drv_read pid fd ess t key_val
        in (ending, key_val # printed))"

text \<open>\<open>fd\<close> is what \<open>open\<close> returns; the process starts with the default action for \<open>SIGIO\<close>.\<close>

definition test_key_signal_main ::
  "(key_state \<Rightarrow> int \<times> key_state) \<Rightarrow> (nat \<Rightarrow> bool \<Rightarrow> key_state \<Rightarrow> int \<times> key_state) \<Rightarrow> ('e \<Rightarrow> key_state \<Rightarrow> key_state) \<Rightarrow>
    (u32 \<Rightarrow> key_state \<Rightarrow> int \<times> u32 option \<times> key_state) \<Rightarrow> int \<Rightarrow> int \<Rightarrow> 'e list list \<Rightarrow> key_state \<Rightarrow> ending \<times> u32 list" where
  "test_key_signal_main drv_open drv_fasync notify drv_read getpid fd ess d =
     (let s = sys_signal \<lparr>drv = d, sig_handler = False, f_owner = None, f_flags = 0\<rparr> in
      if fd < 0 then (Exits (- 1), [])
      else
        let s = sys_open drv_open s;
            s = f_setown getpid s;
            oflags = f_flags s;
            s = f_setfl drv_fasync (nat fd) (oflags OR FASYNC) s
        in signal_loop notify drv_read getpid (nat fd) ess s 0)"

text \<open>\<open>key_loop_test\<close> goes on when the device cannot be opened, and prints what is in its array.\<close>

primrec key_loop :: "u8 list option list \<Rightarrow> u8 option list \<Rightarrow> u8 option list list" where
  "key_loop [] key_val = []"
| "key_loop (rd # rds) key_val =
     (let key_val = (case rd of None \<Rightarrow> key_val | Some bs \<Rightarrow> map Some bs) in key_val # key_loop rds key_val)"

definition key_loop_main :: "int \<Rightarrow> u8 list option list \<Rightarrow> u8 option list list" where
  "key_loop_main fd reads = key_loop (if fd < 0 then map (\<lambda>_. None) reads else reads) (replicate 4 None)"

section \<open>Over the event drivers\<close>

text \<open>
  The rounds of \<open>key_test\<close> over a driver: the events of each round, then \<open>poll\<close> (1 if the mask is not empty,
  0 at the time-out), and a read if \<open>poll\<close> did not time out.
\<close>

primrec rounds ::
  "('e \<Rightarrow> 's \<Rightarrow> 's) \<Rightarrow> ('s \<Rightarrow> u32) \<Rightarrow> (u32 \<Rightarrow> 's \<Rightarrow> int \<times> u32 option \<times> 's) \<Rightarrow> 'e list list \<Rightarrow> 's \<Rightarrow>
    (int \<times> u32 option) list" where
  "rounds notify poll read [] s = []"
| "rounds notify poll read (es # ess) s =
     (let s = fold notify es s in
      if poll s = 0 then (0, None) # rounds notify poll read ess s
      else let (ret, word, s) = read 4 s in (1, word) # rounds notify poll read ess s)"

text \<open>What the program should print: after each round that had an event, the buttons.\<close>

primrec round_words :: "('e \<Rightarrow> u32 list \<Rightarrow> u32 list) \<Rightarrow> 'e list list \<Rightarrow> u32 list \<Rightarrow> u32 list" where
  "round_words upd [] vs = []"
| "round_words upd (es # ess) vs =
     (if es = [] then [] else [pack_keys (fold upd es vs)]) @ round_words upd ess (fold upd es vs)"

lemma poll_mask: "POLLIN OR POLLRDNORM \<noteq> (0 :: u32)"
  by (simp add: POLLIN_def POLLRDNORM_def)

context event_driver
begin

lemma key_test_prints:
  "poll s = 0 \<Longrightarrow> key_test_loop (rounds notify poll read ess s) kv = map Some (round_words upd ess (keys s))"
proof (induction ess arbitrary: s kv)
  case (Cons es ess)
  show ?case
  proof (cases "es = []")
    case True
    then show ?thesis using Cons by (simp add: Let_def)
  next
    case False
    let ?t = "fold notify es s"
    obtain u where u: "read 4 ?t = (4, Some (pack_keys (fold upd es (keys s))), u)"
      using read_word [of ?t] by (cases "read 4 ?t") (auto simp: notify_all_keys)
    have "poll u = 0" "keys u = fold upd es (keys s)"
      using read_clears [of ?t] by (simp_all add: u notify_all_keys)
    moreover have "poll ?t \<noteq> 0" using read_after_events(1) [OF False, of s] poll_mask by simp
    ultimately show ?thesis using False Cons.IH [of u] by (simp add: u Let_def)
  qed
qed simp

end

text \<open>C17: The test program over the interrupt driven buttons prints, for every round in which there was an
  interrupt, exactly one word, the buttons at the end of that round, and nothing for the others,
  however the interrupts fall into rounds.\<close>
theorem key_test_over_key_irq:
  assumes "0 \<le> fd"
  shows "key_test_main fd (rounds buttons_irq (\<lambda>s. fst (my_key_poll s)) (my_key_read False) ess initial) =
    (None, map Some (round_words (\<lambda>e vs. vs[fst e := pressed (snd e)]) ess [0, 0, 0, 0]))"
proof -
  have "fst (my_key_poll initial) = 0" "key_vals initial = [0, 0, 0, 0]"
    by (simp_all add: initial_def my_key_poll_def)
  with irq.key_test_prints [of initial ess None] assms show ?thesis by (simp add: key_test_main_def)
qed

theorem key_test_over_key_irq_witness:
  "key_test_main 3 (rounds buttons_irq (\<lambda>s. fst (my_key_poll s)) (my_key_read False)
     [[(0, 0), (2, 0)], [], [(0, 1)]] initial) = (None, [Some 5, Some 4])"
  using key_test_over_key_irq [of 3 "[[(0, 0), (2, 0)], [], [(0, 1)]]"]
  by (simp add: pack_keys_def pressed_def)

text \<open>The same over the debounced buttons, once the timer armed at load has expired and been read.\<close>
theorem key_test_over_key_jitter:
  assumes "0 \<le> fd" "ev_press s = 0"
  shows "key_test_main fd (rounds kery_timer_function (\<lambda>s. fst (jit_poll s)) (jit_read False) ess s) =
    (None, map Some (round_words get_all_key_val ess (key_vals s)))"
  using jit.key_test_prints [of s ess None] assms by (simp add: key_test_main_def jit_poll_def)

section \<open>Signals\<close>

text \<open>An event driver that signals the files of its queue at every event.\<close>

locale signal_driver = event_driver notify read poll key_vals upd
  for notify :: "'e \<Rightarrow> key_state \<Rightarrow> key_state" and read and poll and upd +
  assumes notify_signals: "sigios (notify e s) = sigios s @ async_q s" "async_q (notify e s) = async_q s"
    and read_queue: "async_q (snd (snd (read n s))) = async_q s"
begin

lemma events_signal:
  "async_q (fold notify es s) = async_q s"
  "count_list (sigios (fold notify es s)) fd = count_list (sigios s) fd + length es * count_list (async_q s) fd"
  by (induction es arbitrary: s) (simp_all add: notify_signals)

lemma signal_prints:
  "sig_handler s \<Longrightarrow> f_owner s = Some pid \<Longrightarrow> fd \<in> set (async_q (drv s)) \<Longrightarrow>
    signal_loop notify read pid fd ess s kv = (Sleeping, round_words upd ess (key_vals (drv s)))"
proof (induction ess arbitrary: s kv)
  case (Cons es ess)
  let ?d = "fold notify es (drv s)"
  have "count_list (async_q (drv s)) fd \<noteq> 0" using Cons.prems(3) by (simp add: count_list_0_iff)
  then have pending: "sigio_pending pid fd s (s\<lparr>drv := ?d\<rparr>) \<longleftrightarrow> es \<noteq> []"
    using Cons.prems(2) by (simp add: sigio_pending_def events_signal)
  show ?case
  proof (cases "es = []")
    case True
    then show ?thesis using Cons pending by (simp add: Let_def)
  next
    case False
    obtain u where u: "read 4 ?d = (4, Some (pack_keys (fold upd es (key_vals (drv s)))), u)"
      using read_word [of ?d] by (cases "read 4 ?d") (auto simp: notify_all_keys)
    have "async_q u = async_q (drv s)" "key_vals u = fold upd es (key_vals (drv s))"
      using read_queue [of 4 ?d] read_clears [of ?d] by (simp_all add: u notify_all_keys events_signal)
    then show ?thesis
      using False pending Cons.prems Cons.IH [of "s\<lparr>drv := u\<rparr>"] by (simp add: u signal_fun_def Let_def)
  qed
qed simp

text \<open>What the program does before its loop is what that needs.\<close>

lemma signal_main:
  assumes "\<And>d. async_q (snd (drv_open d)) = async_q d \<and> key_vals (snd (drv_open d)) = key_vals d"
    and "\<And>d. key_vals (snd (drv_fasync n True d)) = key_vals d"
    and "0 \<le> fst (drv_fasync n True (snd (drv_open d)))" "n \<in> set (async_q (snd (drv_fasync n True (snd (drv_open d)))))"
  shows "test_key_signal_main drv_open drv_fasync notify read pid (int n) ess d =
    (Sleeping, round_words upd ess (key_vals d))"
proof -
  have "O_RDWR AND FASYNC = 0" "(O_RDWR OR FASYNC) AND FASYNC \<noteq> 0" by (simp_all add: O_RDWR_def FASYNC_def)
  then show ?thesis
    using assms signal_prints
    by (simp add: test_key_signal_main_def sys_signal_def sys_open_def f_setown_def f_setfl_def split_def Let_def)
qed

end

interpretation irq_signal: signal_driver buttons_irq "my_key_read False" "\<lambda>s. fst (my_key_poll s)"
  "\<lambda>e vs. vs[fst e := pressed (snd e)]"
  by unfold_locales (simp_all add: buttons_irq_def my_key_read_def Let_def)

interpretation jit_signal: signal_driver kery_timer_function "jit_read False" "\<lambda>s. fst (jit_poll s)" get_all_key_val
  by unfold_locales (simp_all add: kery_timer_function_def jit_read_def Let_def)

lemma open_keeps_queue:
  "async_q (snd (my_key_open request d)) = async_q d" "key_vals (snd (my_key_open request d)) = key_vals d"
  "async_q (snd (jit_open request d)) = async_q d" "key_vals (snd (jit_open request d)) = key_vals d"
  by (simp_all add: my_key_open_def jit_open_def split_def Let_def)

text \<open>C31: The signal test over the interrupt driven buttons. Once the program has installed its handler, made itself the
  owner of the file and set \<open>FASYNC\<close> on it, with the driver's \<open>fasync\<close> behind it, it prints one word for every
  batch of interrupts it is signalled for, however many they are: the buttons at the end of the
  batch; nothing else, and it is not killed. If the device cannot be opened it returns -1.\<close>
theorem signal_test_over_key_irq:
  assumes "keeps_queue helper" "distinct (async_q s)" "0 \<le> fst (helper n True (async_q s))"
  shows "test_key_signal_main (my_key_open request) (my_key_fasync helper) buttons_irq (my_key_read False) pid (int n) ess s =
    (Sleeping, round_words (\<lambda>e vs. vs[fst e := pressed (snd e)]) ess (key_vals s)) \<and>
    test_key_signal_main (my_key_open request) (my_key_fasync helper) buttons_irq (my_key_read False) pid (- 1) ess s =
    (Exits (- 1), [])"
proof -
  have "n \<in> set (async_q (snd (my_key_fasync helper n True (snd (my_key_open request s)))))"
    using assms(1,2) by (simp add: my_key_fasync_def keeps_queue_def split_def Let_def open_keeps_queue)
  moreover have "0 \<le> fst (my_key_fasync helper n True (snd (my_key_open request s)))"
    using assms(3) by (simp add: my_key_fasync_def split_def Let_def open_keeps_queue)
  moreover have "key_vals (snd (my_key_fasync helper n True d)) = key_vals d" for d by simp
  ultimately show ?thesis
    using irq_signal.signal_main [of "my_key_open request" "my_key_fasync helper" n s pid ess]
    by (simp add: open_keeps_queue test_key_signal_main_def Let_def)
qed

text \<open>Three interrupts in two batches, and a time without any.\<close>

theorem signal_test_over_key_irq_witness:
  "test_key_signal_main (my_key_open request_line) (my_key_fasync add_remove) buttons_irq (my_key_read False) 77 (int 5)
     [[(1, 0), (3, 0)], [], [(1, 1)]] initial = (Sleeping, [10, 8])"
proof -
  have "key_vals initial = [0, 0, 0, 0]" "distinct (async_q initial)" "0 \<le> fst (add_remove 5 True (async_q initial))"
    by (simp_all add: initial_def add_remove_def)
  with signal_test_over_key_irq [OF add_remove_keeps_queue, of initial 5 request_line 77 "[[(1, 0), (3, 0)], [], [(1, 1)]]"]
  show ?thesis by (simp add: pack_keys_def pressed_def del: of_nat_numeral)
qed

text \<open>The same over the debounced buttons, whose timer signals.\<close>
theorem signal_test_over_key_jitter:
  assumes "keeps_queue helper" "distinct (async_q s)" "0 \<le> fst (helper n True (async_q s))"
  shows "test_key_signal_main (jit_open request) (jit_fasync helper) kery_timer_function (jit_read False) pid (int n) ess s =
    (Sleeping, round_words get_all_key_val ess (key_vals s))"
proof -
  have "n \<in> set (async_q (snd (jit_fasync helper n True (snd (jit_open request s)))))"
    "0 \<le> fst (jit_fasync helper n True (snd (jit_open request s)))"
    using assms by (simp_all add: jit_fasync_def keeps_queue_def split_def Let_def open_keeps_queue)
  moreover have "key_vals (snd (jit_fasync helper n True d)) = key_vals d" for d
    by (simp add: jit_fasync_def split_def Let_def)
  ultimately show ?thesis
    using jit_signal.signal_main [of "jit_open request" "jit_fasync helper" n s pid ess] by (simp add: open_keeps_queue)
qed

theorem signal_test_over_key_jitter_witness:
  "test_key_signal_main (jit_open request_line) (jit_fasync add_remove) kery_timer_function (jit_read False) 77 (int 5)
     [[\<lambda>k. if k = 2 then 0 else 1, \<lambda>k. if k = 1 then 0 else 1]] initial = (Sleeping, [2])"
proof -
  have "key_vals initial = [0, 0, 0, 0]" "distinct (async_q initial)" "0 \<le> fst (add_remove 5 True (async_q initial))"
    by (simp_all add: initial_def add_remove_def)
  with signal_test_over_key_jitter [OF add_remove_keeps_queue, of initial 5 request_line 77
      "[[\<lambda>k. if k = 2 then 0 else 1, \<lambda>k. if k = 1 then 0 else 1]]"]
  show ?thesis by (simp add: pack_keys_def pressed_def get_all_key_val_def upt_conv_Cons del: of_nat_numeral)
qed

section \<open>The polled buttons\<close>

text \<open>The loop test over the polled buttons prints the levels of the pins in every round; without the
  device it prints four indeterminate bytes for ever.\<close>
theorem key_loop_over_key:
  "key_loop_main fd (map (\<lambda>(f, g). snd (key_read False 4 f g)) ports) =
     (if fd < 0 then replicate (length ports) (replicate 4 None)
      else map (\<lambda>(f, g). map (\<lambda>b. Some (of_bool (\<not> b))) [bit (dat f) 0, bit (dat f) 2, bit (dat g) 3, bit (dat g) 11]) ports)"
proof -
  have none: "key_loop (map (\<lambda>_. None) xs) kv = replicate (length xs) kv" for xs :: "u8 list option list" and kv
    by (induction xs) simp_all
  have "key_loop (map (\<lambda>(f, g). snd (key_read False 4 f g)) ports) kv =
      map (\<lambda>(f, g). map (\<lambda>b. Some (of_bool (\<not> b))) [bit (dat f) 0, bit (dat f) 2, bit (dat g) 3, bit (dat g) 11]) ports" for kv
    by (induction ports arbitrary: kv) (auto simp: polled_read Let_def)
  then show ?thesis by (simp add: key_loop_main_def none del: map_map)
qed

end
