(* ===== verification/Input_Core.thy ===== *)
theory Input_Core
  imports Kernel
begin

text \<open>
  What the three input drivers use of the input subsystem: event codes, the calls that create, register
  and release a device, and the state of the keys as a reader reconstructs it from the events.
\<close>

section \<open>Codes of \<open>linux/input-event-codes.h\<close>\<close>

definition ABS_X :: nat where "ABS_X = 0x00"
definition ABS_Y :: nat where "ABS_Y = 0x01"
definition ABS_PRESSURE :: nat where "ABS_PRESSURE = 0x18"
definition BTN_TOUCH :: nat where "BTN_TOUCH = 0x14a"
definition KEY_ENTER :: nat where "KEY_ENTER = 28"
definition KEY_S :: nat where "KEY_S = 31"
definition KEY_L :: nat where "KEY_L = 38"
definition KEY_LEFTSHIFT :: nat where "KEY_LEFTSHIFT = 42"

lemmas code_defs = ABS_X_def ABS_Y_def ABS_PRESSURE_def BTN_TOUCH_def KEY_ENTER_def KEY_S_def
  KEY_L_def KEY_LEFTSHIFT_def

section \<open>Declarations\<close>

text \<open>
  What a driver declares of its device before it registers it: the types of event, the keys, and the absolute
  axes with their range. The input core passes on only events that were declared: \<open>accepts\<close>.
\<close>

definition EV_KEY :: nat where "EV_KEY = 0x01"
definition EV_ABS :: nat where "EV_ABS = 0x03"
definition EV_REP :: nat where "EV_REP = 0x14"

record input_dev =
  evbit :: "nat list"
  keybit :: "nat list"
  absinfo :: "(nat \<times> nat \<times> nat) list"

fun accepts :: "input_dev \<Rightarrow> input_event \<Rightarrow> bool" where
  "accepts dev (KeyEvent code v) \<longleftrightarrow> EV_KEY \<in> set (evbit dev) \<and> code \<in> set (keybit dev) \<and> v \<le> 1"
| "accepts dev (AbsEvent code v) \<longleftrightarrow> EV_ABS \<in> set (evbit dev) \<and>
     list_ex (\<lambda>(c, lo, hi). c = code \<and> lo \<le> v \<and> v \<le> hi) (absinfo dev)"
| "accepts dev Sync \<longleftrightarrow> True"

section \<open>Resources\<close>

text \<open>
  \<open>input_unregister_device\<close> gives up the reference that \<open>input_allocate_device\<close> returned, and
  \<open>input_free_device\<close>, meant for a device that was never registered, does so as well.
\<close>

datatype in_res = Idev | Registered | Clk | ClkOn | Iomap | Irq nat | Timer | Coherent | Urb | Submitted

abbreviation input_allocate_device :: "in_res event list" where
  "input_allocate_device \<equiv> [Acq Idev]"

abbreviation input_register_device :: "in_res event list" where
  "input_register_device \<equiv> [Acq Registered]"

abbreviation input_unregister_device :: "in_res event list" where
  "input_unregister_device \<equiv> [Rel Registered, Rel Idev]"

abbreviation input_free_device :: "in_res event list" where
  "input_free_device \<equiv> [Rel Idev]"

section \<open>The reader's view\<close>

fun key_after :: "(nat \<Rightarrow> bool) \<Rightarrow> input_event \<Rightarrow> nat \<Rightarrow> bool" where
  "key_after down (KeyEvent code v) = down(code := v \<noteq> 0)"
| "key_after down (AbsEvent code v) = down"
| "key_after down Sync = down"

definition keys_after :: "(nat \<Rightarrow> bool) \<Rightarrow> input_event list \<Rightarrow> nat \<Rightarrow> bool" where
  "keys_after = foldl key_after"

lemma keys_after_simps [simp]:
  "keys_after down [] = down"
  "keys_after down (e # es) = keys_after (key_after down e) es"
  "keys_after down (es @ fs) = keys_after (keys_after down es) fs"
  by (simp_all add: keys_after_def)

end
