(* ===== verification/Key_Input.thy ===== *)
theory Key_Input
  imports Input_Core
begin

text \<open>
  The buttons as an input device, \<open>input_sub_system/key/key_input_drv.c\<close>: interrupts remember which
  button it was and restart a timer; the timer reports that button.
\<close>

section \<open>The driver\<close>

record pin_desc =
  irq_num :: nat
  key_code :: nat

text \<open>The lines EINT0, EINT2, EINT11 and EINT19 by number, and the codes of the buttons.\<close>

definition pins_desc :: "pin_desc list" where
  "pins_desc =
     [\<lparr>irq_num = 0, key_code = KEY_L\<rparr>, \<lparr>irq_num = 2, key_code = KEY_S\<rparr>,
      \<lparr>irq_num = 11, key_code = KEY_ENTER\<rparr>, \<lparr>irq_num = 19, key_code = KEY_LEFTSHIFT\<rparr>]"

text \<open>\<open>irq_pd\<close>: the descriptor of the last interrupt; \<open>expires\<close>: when the timer runs, if it is armed.\<close>

record key_input =
  irq_pd :: "nat option"
  expires :: "nat option"

definition key_irq_handler :: "nat \<Rightarrow> nat \<Rightarrow> nat \<Rightarrow> key_input \<Rightarrow> key_input" where
  "key_irq_handler HZ jiffies k s = s\<lparr>irq_pd := Some k, expires := Some (jiffies + HZ div 100)\<rparr>"

text \<open>The timer: what it reports, given the levels of the pins. The state of the driver stays as it is.\<close>

definition key_input_timer_function :: "(nat \<Rightarrow> int) \<Rightarrow> key_input \<Rightarrow> input_event list" where
  "key_input_timer_function level s =
     (case irq_pd s of
        None \<Rightarrow> []
      | Some k \<Rightarrow> [KeyEvent (key_code (pins_desc ! k)) (if level k = 0 then 1 else 0), Sync])"

definition key_input_dev :: input_dev where
  "key_input_dev = \<lparr>evbit = [EV_KEY, EV_REP], keybit = [KEY_L, KEY_S, KEY_ENTER, KEY_LEFTSHIFT], absinfo = []\<rparr>"

record ki_env =
  ki_idev_ok :: bool
  ki_register_ret :: int
  ki_irq_ret :: "nat \<Rightarrow> int"

text \<open>The loop over the interrupts: the error and how many were acquired, or none.\<close>

primrec request_irqs :: "(nat \<Rightarrow> int) \<Rightarrow> nat list \<Rightarrow> int \<times> in_res event list \<times> nat" where
  "request_irqs ret [] = (0, [], 0)"
| "request_irqs ret (i # is) =
     (if ret i \<noteq> 0 then (ret i, [], 0)
      else let (r, es, n) = request_irqs ret is in (r, Acq (Irq i) # es, Suc n))"

definition irqs :: "nat list" where
  "irqs = map irq_num pins_desc"

definition key_input_init :: "ki_env \<Rightarrow> int \<times> in_res event list" where
  "key_input_init env =
     (if \<not> ki_idev_ok env then (- ENOMEM, [])
      else if ki_register_ret env \<noteq> 0
      then (ki_register_ret env, input_allocate_device @ input_free_device)
      else let (ret, es, n) = request_irqs (ki_irq_ret env) irqs;
               es = input_allocate_device @ input_register_device @ [Acq Timer] @ es
           in if ret \<noteq> 0
              then (ret, es @ map (\<lambda>i. Rel (Irq i)) (rev (take n irqs)) @ [Rel Timer] @
                      input_unregister_device @ input_free_device)
              else (0, es))"

definition key_input_exit :: "in_res event list" where
  "key_input_exit = map (\<lambda>i. Rel (Irq i)) irqs @ [Rel Timer] @ input_unregister_device @ input_free_device"

section \<open>Reports\<close>

text \<open>
  Interrupts (with \<open>HZ\<close>, the time and the button) and expiries as they come; the timer fires once
  and is then idle.
\<close>

datatype ki_input = Press nat nat nat | Expire "nat \<Rightarrow> int"

fun ki_handle :: "ki_input \<Rightarrow> key_input \<Rightarrow> key_input" where
  "ki_handle (Press HZ now k) s = key_irq_handler HZ now k s"
| "ki_handle (Expire level) s = s\<lparr>expires := None\<rparr>"

fun ki_reports :: "ki_input \<Rightarrow> key_input \<Rightarrow> input_event list" where
  "ki_reports (Press HZ now k) s = []"
| "ki_reports (Expire level) s = key_input_timer_function level s"

interpretation ki: reporter ki_handle ki_reports
proof
  fix i s
  show "frame_ok (ki_reports i s)"
    by (cases i) (auto simp: key_input_timer_function_def frame_ok_def split: option.splits)
qed

lemma key_irq_handler_eq:
  "key_irq_handler HZ now k s = \<lparr>irq_pd = Some k, expires = Some (now + HZ div 100)\<rparr>"
  by (cases s) (simp add: key_irq_handler_def)

text \<open>C40: Of several buttons whose interrupts arrive before the timer runs only the last is reported, with
  its level at that moment, as a key the device has declared: nothing is said of the others, so their presses and releases are
  lost to the reader.\<close>
theorem only_last_button_reported:
  assumes "k < 4"
  shows "key_input_timer_function level (fold (\<lambda>(now, k). key_irq_handler HZ now k) (presses @ [(now, k)]) s) =
      [KeyEvent (key_code (pins_desc ! k)) (if level k = 0 then 1 else 0), Sync] \<and>
    accepts key_input_dev (KeyEvent (key_code (pins_desc ! k)) (if level k = 0 then 1 else 0)) \<and>
    (\<forall>j < 4. j \<noteq> k \<longrightarrow> keys_after down (key_input_timer_function level
      (fold (\<lambda>(now, k). key_irq_handler HZ now k) (presses @ [(now, k)]) s)) (key_code (pins_desc ! j)) =
      down (key_code (pins_desc ! j)))"
proof -
  have "key_code (pins_desc ! j) \<noteq> key_code (pins_desc ! k)" if "j < 4" "j \<noteq> k" for j
    using that assms by (auto simp: pins_desc_def code_defs numeral_eq_Suc less_Suc_eq)
  moreover have "accepts key_input_dev (KeyEvent (key_code (pins_desc ! k)) (if level k = 0 then 1 else 0))"
    using assms by (auto simp: key_input_dev_def pins_desc_def numeral_eq_Suc less_Suc_eq)
  ultimately show ?thesis by (simp add: key_irq_handler_eq key_input_timer_function_def)
qed

theorem only_last_button_reported_witness:
  "key_input_timer_function (\<lambda>_. 0) (fold (\<lambda>(now, k). key_irq_handler 200 now k) ([(5, 0)] @ [(6, 3)])
     \<lparr>irq_pd = None, expires = None\<rparr>) = [KeyEvent KEY_LEFTSHIFT 1, Sync]"
  using only_last_button_reported [of 3 "\<lambda>_. 0" 200 "[(5, 0)]" 6 "\<lparr>irq_pd = None, expires = None\<rparr>"]
  by (simp add: pins_desc_def)

section \<open>Initialisation and exit\<close>

text \<open>The interrupt lines are handled exactly: whichever request fails, the ones before it are
  released in reverse order, and only those. But the input device is given back twice on every path
  after its registration, in the error path and in the exit.\<close>
theorem key_input_ledger:
  "ki_idev_ok env \<Longrightarrow> ki_register_ret env = 0 \<Longrightarrow>
     (if \<forall>i \<in> set irqs. ki_irq_ret env i = 0
      then fst (key_input_init env) = 0 \<and>
        ledger (snd (key_input_init env)) = Some ({#Idev, Registered, Timer#} + mset (map Irq irqs)) \<and>
        ledger (snd (key_input_init env) @ key_input_exit) = None \<and>
        ledger (snd (key_input_init env) @ butlast key_input_exit) = Some {#}
      else fst (key_input_init env) \<noteq> 0 \<and> ledger (snd (key_input_init env)) = None \<and>
        ledger (butlast (snd (key_input_init env))) = Some {#})"
  by (simp add: key_input_init_def key_input_exit_def irqs_def pins_desc_def ledger_def Let_def)

theorem key_input_ledger_witness:
  "ledger (snd (key_input_init \<lparr>ki_idev_ok = True, ki_register_ret = 0, ki_irq_ret = (\<lambda>i. if i = 11 then - EBUSY else 0)\<rparr>)) = None"
  using key_input_ledger
    [of "\<lparr>ki_idev_ok = True, ki_register_ret = 0, ki_irq_ret = (\<lambda>i. if i = 11 then - EBUSY else 0)\<rparr>"]
  by (simp add: irqs_def pins_desc_def)

end
