(* ===== verification/Usbmouse.thy ===== *)
theory Usbmouse
  imports Input_Core
begin

text \<open>
  The USB mouse whose buttons are keys, \<open>usbmouse_key/usbmouse_as_key.c\<close>: the completion handler
  of its interrupt transfer, probe and disconnect.
\<close>

section \<open>The driver\<close>

text \<open>\<open>pre_val\<close>: the first byte of the last packet; \<open>submits\<close>: how often the transfer was submitted again.\<close>

record mouse =
  pre_val :: u8
  submits :: nat

definition report_bit :: "u8 \<Rightarrow> u8 \<Rightarrow> u8 \<Rightarrow> nat \<Rightarrow> input_event list" where
  "report_bit flag old new code =
     (if (old XOR new) AND flag \<noteq> 0 then [KeyEvent code (if new AND flag \<noteq> 0 then 1 else 0)] else [])"

definition mouse_reports :: "u8 \<Rightarrow> mouse \<Rightarrow> input_event list" where
  "mouse_reports buf m =
     report_bit 0x01 (pre_val m) buf KEY_L @
     report_bit 0x02 (pre_val m) buf KEY_S @
     report_bit 0x04 (pre_val m) buf KEY_ENTER @
     (if pre_val m XOR buf \<noteq> 0 then [Sync] else [])"

definition usbmouse_as_key_irq :: "u8 \<Rightarrow> mouse \<Rightarrow> mouse" where
  "usbmouse_as_key_irq buf m = m\<lparr>pre_val := buf, submits := submits m + 1\<rparr>"

definition uk_idev :: input_dev where
  "uk_idev = \<lparr>evbit = [EV_KEY, EV_REP], keybit = [KEY_L, KEY_S, KEY_ENTER], absinfo = []\<rparr>"

record mouse_env =
  idev_ok :: bool
  register_ret :: int
  coherent_ok :: bool
  urb_ok :: bool
  submit_ok :: bool

text \<open>
  The results of \<open>usb_alloc_coherent\<close>, \<open>usb_alloc_urb\<close> and \<open>usb_submit_urb\<close> are not looked at;
  \<open>usb_fill_int_urb\<close> stores into the transfer.
\<close>

definition usbmouse_as_key_probe :: "mouse_env \<Rightarrow> fault + (int \<times> in_res event list)" where
  "usbmouse_as_key_probe env =
     (if \<not> idev_ok env then Inr (- ENOMEM, [])
      else if register_ret env \<noteq> 0
      then Inr (register_ret env, input_allocate_device @ input_free_device)
      else
        let es = input_allocate_device @ input_register_device @ (if coherent_ok env then [Acq Coherent] else [])
        in if \<not> urb_ok env then Inl NullDeref
           else Inr (0, es @ [Acq Urb] @ (if submit_ok env then [Acq Submitted] else [])))"

definition usbmouse_as_key_disconnect :: "mouse_env \<Rightarrow> in_res event list" where
  "usbmouse_as_key_disconnect env =
     (if submit_ok env then [Rel Submitted] else []) @ [Rel Urb] @
     (if coherent_ok env then [Rel Coherent] else []) @ input_unregister_device @ input_free_device"

section \<open>Reports\<close>

interpretation mouse: reporter usbmouse_as_key_irq mouse_reports
  by unfold_locales (auto simp: mouse_reports_def report_bit_def frame_ok_def)

lemma report_bit_cases:
  "(report_bit flag old new code = [] \<and> (old AND flag \<noteq> 0) = (new AND flag \<noteq> 0)) \<or>
    report_bit flag old new code = [KeyEvent code (if new AND flag \<noteq> 0 then 1 else 0)]"
proof (cases "(old XOR new) AND flag = 0")
  case True
  then have "old AND flag = new AND flag"
  proof (intro bit_eqI)
    fix n
    have "\<not> bit ((old XOR new) AND flag) n" using True by simp
    then show "bit (old AND flag) n = bit (new AND flag) n" by (auto simp: bit_and_iff bit_xor_iff)
  qed
  then show ?thesis using True by (simp add: report_bit_def)
qed (simp add: report_bit_def)

lemma reported_key:
  assumes "down code = (old AND flag \<noteq> 0)"
  shows "keys_after down (report_bit flag old new code) = down(code := new AND flag \<noteq> 0)"
  using report_bit_cases [of flag old new code] assms by (auto simp: fun_eq_iff)

lemma mouse_accepted: "list_all (accepts uk_idev) (mouse.stream bufs m)"
  by (induction bufs arbitrary: m) (auto simp: mouse_reports_def report_bit_def uk_idev_def)

text \<open>The keys as the reader has them agree with the byte the driver remembers.\<close>

definition in_step :: "(nat \<Rightarrow> bool) \<Rightarrow> mouse \<Rightarrow> bool" where
  "in_step down m \<longleftrightarrow> down KEY_L = (pre_val m AND 1 \<noteq> 0) \<and> down KEY_S = (pre_val m AND 2 \<noteq> 0) \<and>
     down KEY_ENTER = (pre_val m AND 4 \<noteq> 0)"

lemma in_step_packet:
  assumes "in_step down m"
  shows "in_step (keys_after down (mouse_reports buf m)) (usbmouse_as_key_irq buf m)"
proof -
  have "keys_after down (mouse_reports buf m) =
      down(KEY_L := buf AND 1 \<noteq> 0, KEY_S := buf AND 2 \<noteq> 0, KEY_ENTER := buf AND 4 \<noteq> 0)"
    using assms by (simp add: mouse_reports_def in_step_def reported_key code_defs)
  then show ?thesis by (simp add: in_step_def usbmouse_as_key_irq_def code_defs)
qed

lemma in_step_stream:
  "in_step down m \<Longrightarrow> in_step (keys_after down (mouse.stream bufs m)) (fold usbmouse_as_key_irq bufs m)"
  by (induction bufs arbitrary: down m) (simp_all add: in_step_packet)

text \<open>C14: Only changes are reported, yet a reader who applies the events always has the true state: after
  any packets the keys L, S and Enter are down exactly when the left, right and middle button
  are in the last packet, every event is one the device has declared, the stream ends in a synchronisation, and every packet has been
  answered with a new transfer.\<close>
theorem mouse_keys_follow:
  assumes "pre_val m = 0" "bufs \<noteq> []"
  shows "keys_after (\<lambda>_. False) (mouse.stream bufs m) KEY_L = (last bufs AND 1 \<noteq> 0) \<and>
    keys_after (\<lambda>_. False) (mouse.stream bufs m) KEY_S = (last bufs AND 2 \<noteq> 0) \<and>
    keys_after (\<lambda>_. False) (mouse.stream bufs m) KEY_ENTER = (last bufs AND 4 \<noteq> 0) \<and>
    list_all (accepts uk_idev) (mouse.stream bufs m) \<and> pending (mouse.stream bufs m) = [] \<and>
    submits (fold usbmouse_as_key_irq bufs m) = submits m + length bufs"
proof -
  have "in_step (\<lambda>_. False) m" using assms(1) by (simp add: in_step_def)
  from in_step_stream [OF this, of bufs]
  have "in_step (keys_after (\<lambda>_. False) (mouse.stream bufs m)) (fold usbmouse_as_key_irq bufs m)" .
  moreover have "pre_val (fold usbmouse_as_key_irq bufs m) = last bufs"
    using assms(2) by (cases bufs rule: rev_cases) (simp_all add: usbmouse_as_key_irq_def)
  moreover have "submits (fold usbmouse_as_key_irq bufs m) = submits m + length bufs"
    by (induction bufs arbitrary: m) (simp_all add: usbmouse_as_key_irq_def)
  ultimately show ?thesis by (simp add: in_step_def mouse.stream_synced mouse_accepted)
qed

theorem mouse_keys_follow_witness:
  "keys_after (\<lambda>_. False) (mouse.stream [1, 5, 4] \<lparr>pre_val = 0, submits = 0\<rparr>) KEY_ENTER \<and>
   \<not> keys_after (\<lambda>_. False) (mouse.stream [1, 5, 4] \<lparr>pre_val = 0, submits = 0\<rparr>) KEY_L"
  using mouse_keys_follow [of "\<lparr>pre_val = 0, submits = 0\<rparr>" "[1, 5, 4]"] by simp

section \<open>Probe and disconnect\<close>

text \<open>Every successful probe followed by the disconnect gives the input device back twice: it is
  unregistered, which frees it, and then freed. If the transfer could not be allocated the
  probe itself dereferences a null pointer.\<close>
theorem mouse_double_free:
  assumes "idev_ok env" "register_ret env = 0"
  shows "(if urb_ok env
     then (\<exists>es. usbmouse_as_key_probe env = Inr (0, es) \<and> ledger (es @ usbmouse_as_key_disconnect env) = None)
     else usbmouse_as_key_probe env = Inl NullDeref)"
  using assms by (simp add: usbmouse_as_key_probe_def usbmouse_as_key_disconnect_def ledger_def Let_def)

theorem mouse_double_free_witness:
  "\<exists>es. usbmouse_as_key_probe \<lparr>idev_ok = True, register_ret = 0, coherent_ok = True, urb_ok = True, submit_ok = True\<rparr> =
       Inr (0, es) \<and>
     ledger (es @ usbmouse_as_key_disconnect
       \<lparr>idev_ok = True, register_ret = 0, coherent_ok = True, urb_ok = True, submit_ok = True\<rparr>) = None"
  using mouse_double_free
    [of "\<lparr>idev_ok = True, register_ret = 0, coherent_ok = True, urb_ok = True, submit_ok = True\<rparr>"] by simp

end
