(* ===== verification/Touchscreen.thy ===== *)
theory Touchscreen
  imports Input_Core
begin

text \<open>
  The touch screen driver, \<open>input_sub_system/touch_screen/ts_drv.c\<close>: the pen interrupt, the
  conversion interrupt with its averaging, the timer, and the module hooks. The values of the two
  data registers are inputs: of every handler, those it decides on.
\<close>

section \<open>The driver\<close>

record ts =
  adccon :: u32
  adctsc :: u32
  adcdly :: u32
  cnt :: nat
  xs :: "int list"
  ys :: "int list"
  ts_timer :: "nat option"

definition TS_IS_UP :: "u32 \<Rightarrow> u32 \<Rightarrow> bool" where
  "TS_IS_UP adcdat0 adcdat1 \<longleftrightarrow> adcdat0 AND push_bit 15 1 \<noteq> 0 \<and> adcdat1 AND push_bit 15 1 \<noteq> 0"

definition enter_wait_pen_down_mode :: "ts \<Rightarrow> ts" where
  "enter_wait_pen_down_mode s = s\<lparr>adctsc := 0xd3\<rparr>"

definition enter_wait_pen_up_mode :: "ts \<Rightarrow> ts" where
  "enter_wait_pen_up_mode s = s\<lparr>adctsc := 0x1d3\<rparr>"

definition enter_measure_xy_mode :: "ts \<Rightarrow> ts" where
  "enter_measure_xy_mode s = s\<lparr>adctsc := push_bit 2 1\<rparr>"

definition start_adc :: "ts \<Rightarrow> ts" where
  "start_adc s = s\<lparr>adccon := adccon s OR push_bit 0 1\<rparr>"

definition release_report :: "input_event list" where
  "release_report = [AbsEvent ABS_PRESSURE 0, KeyEvent BTN_TOUCH 0, Sync]"

definition pen_down_up_irq_handler :: "u32 \<Rightarrow> u32 \<Rightarrow> ts \<Rightarrow> ts \<times> input_event list" where
  "pen_down_up_irq_handler d0 d1 s =
     (if TS_IS_UP d0 d1 then (enter_wait_pen_down_mode s, release_report)
      else (start_adc (enter_measure_xy_mode s), []))"

text \<open>
  The release test of \<open>adc_irq\<close> is written \<open>adcdat0 & (1<15)\<close>: a comparison, whose value is 1.
\<close>

definition adc_is_up :: "u32 \<Rightarrow> u32 \<Rightarrow> bool" where
  "adc_is_up adcdat0 adcdat1 \<longleftrightarrow>
     adcdat0 AND (if (1 :: nat) < 15 then 1 else 0) \<noteq> 0 \<and> adcdat1 AND push_bit 15 1 \<noteq> 0"

definition adc_out :: "ts \<Rightarrow> ts" where
  "adc_out s = enter_wait_pen_up_mode (s\<lparr>cnt := 0\<rparr>)"

definition average :: "int list \<Rightarrow> int" where
  "average v = (v ! 0 + v ! 1 + v ! 2 + v ! 3) div 4"

text \<open>\<open>HZ\<close> and \<open>jiffies\<close> are the kernel's. The samples are not negative, so C's division is \<open>div\<close>.\<close>

definition adc_irq :: "nat \<Rightarrow> nat \<Rightarrow> u32 \<Rightarrow> u32 \<Rightarrow> ts \<Rightarrow> fault + (ts \<times> input_event list)" where
  "adc_irq HZ jiffies d0 d1 s =
     (if adc_is_up d0 d1 then Inr (adc_out s, release_report)
      else ebind (put (xs s) (cnt s) (uint (d0 AND 0x3ff))) (\<lambda>x.
        ebind (put (ys s) (cnt s) (uint (d1 AND 0x3ff))) (\<lambda>y.
          let s = s\<lparr>xs := x, ys := y, cnt := cnt s + 1\<rparr> in
          if cnt s \<noteq> 4 then Inr (start_adc (enter_measure_xy_mode s), [])
          else Inr (adc_out (s\<lparr>ts_timer := Some (jiffies + HZ div 10)\<rparr>),
            [AbsEvent ABS_X (nat (average x)), AbsEvent ABS_Y (nat (average y)),
             AbsEvent ABS_PRESSURE 1, KeyEvent BTN_TOUCH 1, Sync]))))"

definition s3c_ts_timer_function :: "u32 \<Rightarrow> u32 \<Rightarrow> ts \<Rightarrow> ts \<times> input_event list" where
  "s3c_ts_timer_function d0 d1 s =
     (let s = s\<lparr>ts_timer := None\<rparr> in
      if TS_IS_UP d0 d1 then (enter_wait_pen_down_mode s, release_report)
      else (start_adc (enter_measure_xy_mode s), []))"

section \<open>Initialisation and exit\<close>

definition s3c_ts_dev :: input_dev where
  "s3c_ts_dev = \<lparr>evbit = [EV_KEY, EV_ABS], keybit = [BTN_TOUCH],
     absinfo = [(ABS_X, 0, 0x3ff), (ABS_Y, 0, 0x3ff), (ABS_PRESSURE, 0, 1)]\<rparr>"

record ts_env =
  ts_idev_ok :: bool
  ts_register_ret :: int
  clk_ok :: bool
  iomap_ok :: bool
  tc_ret :: int
  adc_ret :: int

text \<open>The labels of the error path, from \<open>err_irq_tc\<close> down: what each still does.\<close>

definition err_free_input_dev :: "in_res event list" where
  "err_free_input_dev = input_free_device"

definition err_input_unregister :: "in_res event list" where
  "err_input_unregister = input_unregister_device @ err_free_input_dev"

text \<open>\<open>clk_disable\<close> without the \<open>clk_unprepare\<close> that \<open>clk_prepare_enable\<close> asks for; the ledger counts the enable.\<close>

definition err_free_clk :: "in_res event list" where
  "err_free_clk = [Rel ClkOn, Rel Clk] @ err_input_unregister"

definition err_iomap :: "in_res event list" where
  "err_iomap = Rel Iomap # err_free_clk"

definition err_irq_tc :: "in_res event list" where
  "err_irq_tc = Rel (Irq 0) # err_iomap"

text \<open>The lines \<open>IRQ_TC\<close> and \<open>IRQ_ADC\<close> are 0 and 1.\<close>

definition my_ts_init :: "ts_env \<Rightarrow> int \<times> in_res event list" where
  "my_ts_init env =
     (if \<not> ts_idev_ok env then (- ENOMEM, [])
      else if ts_register_ret env \<noteq> 0 then (ts_register_ret env, input_allocate_device @ err_free_input_dev)
      else let es = input_allocate_device @ input_register_device in
        if \<not> clk_ok env then (- EBUSY, es @ err_input_unregister)
        else let es = es @ [Acq Clk, Acq ClkOn] in
          if \<not> iomap_ok env then (- ENXIO, es @ err_free_clk)
          else let es = es @ [Acq Iomap] in
            if tc_ret env \<noteq> 0 then (tc_ret env, es @ err_iomap)
            else let es = es @ [Acq (Irq 0)] in
              if adc_ret env \<noteq> 0 then (adc_ret env, es @ err_irq_tc)
              else (0, es @ [Acq (Irq 1), Acq Timer]))"

definition my_ts_exit :: "in_res event list" where
  "my_ts_exit = [Rel (Irq 1), Rel (Irq 0), Rel Iomap] @ input_unregister_device @ input_free_device"

text \<open>The registers after a successful initialisation; the timer is added with expiry 0.\<close>

definition ts_loaded :: ts where
  "ts_loaded = enter_wait_pen_down_mode
     \<lparr>adccon = push_bit 14 1 OR push_bit 6 49, adctsc = 0, adcdly = 0xffff, cnt = 0,
       xs = [0, 0, 0, 0], ys = [0, 0, 0, 0], ts_timer = Some 0\<rparr>"

section \<open>The state machine\<close>

text \<open>Inputs: a handler with the data registers it reads (and \<open>HZ\<close> and the time for the conversion).\<close>

datatype ts_input = Pen u32 u32 | Adc nat nat u32 u32 | Expiry u32 u32

fun ts_step :: "ts_input \<Rightarrow> ts \<Rightarrow> fault + (ts \<times> input_event list)" where
  "ts_step (Pen d0 d1) s = Inr (pen_down_up_irq_handler d0 d1 s)"
| "ts_step (Adc HZ now d0 d1) s = adc_irq HZ now d0 d1 s"
| "ts_step (Expiry d0 d1) s = Inr (s3c_ts_timer_function d0 d1 s)"

inductive ts_run :: "ts \<Rightarrow> input_event list \<Rightarrow> bool" where
  loaded: "ts_run ts_loaded []"
| step: "ts_run s es \<Longrightarrow> ts_step i s = Inr (t, fs) \<Longrightarrow> ts_run t (es @ fs)"

inductive_cases ts_run_cases: "ts_run s es"

text \<open>Four slots for the samples, one of them free; every sample of ten bits; one of three modes.\<close>

definition samples_ok :: "int list \<Rightarrow> bool" where
  "samples_ok v \<longleftrightarrow> length v = 4 \<and> list_all (\<lambda>x. 0 \<le> x \<and> x \<le> 0x3ff) v"

definition ts_inv :: "ts \<Rightarrow> bool" where
  "ts_inv s \<longleftrightarrow> cnt s < 4 \<and> samples_ok (xs s) \<and> samples_ok (ys s) \<and> adctsc s \<in> {0xd3, 0x1d3, 4}"

lemma sample_bounds: "0 \<le> uint (d AND 0x3ff :: u32) \<and> uint (d AND 0x3ff :: u32) \<le> 0x3ff"
proof -
  have "d AND 0x3ff \<le> (0x3ff :: u32)" by (rule word_and_le1)
  then show ?thesis by (simp add: word_le_def)
qed

lemma samples_put: "samples_ok v \<Longrightarrow> samples_ok (v[k := uint (d AND 0x3ff :: u32)])"
  using sample_bounds [of d] by (simp add: samples_ok_def list_all_update)

lemma average_bounds:
  assumes "samples_ok v"
  shows "0 \<le> average v \<and> average v \<le> 0x3ff"
proof -
  have "0 \<le> v ! k \<and> v ! k \<le> 0x3ff" if "k < 4" for k
    using assms that by (simp add: samples_ok_def list_all_length)
  from this [of 0] this [of 1] this [of 2] this [of 3] show ?thesis unfolding average_def by linarith
qed

lemma ts_step_ok:
  assumes "ts_inv s"
  shows "\<exists>t fs. ts_step i s = Inr (t, fs) \<and> ts_inv t \<and> list_all (accepts s3c_ts_dev) fs \<and> frame_ok fs"
proof (cases i)
  case (Adc HZ now d0 d1)
  let ?x = "(xs s)[cnt s := uint (d0 AND 0x3ff)]" and ?y = "(ys s)[cnt s := uint (d1 AND 0x3ff)]"
  have xy: "samples_ok ?x" "samples_ok ?y" using assms by (simp_all add: ts_inv_def samples_put)
  have put: "put (xs s) (cnt s) (uint (d0 AND 0x3ff)) = Inr ?x" "put (ys s) (cnt s) (uint (d1 AND 0x3ff)) = Inr ?y"
    using assms by (simp_all add: ts_inv_def samples_ok_def)
  have "nat (average ?x) \<le> 0x3ff" "nat (average ?y) \<le> 0x3ff"
    using average_bounds [OF xy(1)] average_bounds [OF xy(2)] by (simp_all add: nat_le_iff)
  then show ?thesis
    using assms xy unfolding Adc
    by (auto simp: adc_irq_def put Let_def ts_inv_def adc_out_def enter_wait_pen_up_mode_def start_adc_def
        enter_measure_xy_mode_def release_report_def frame_ok_def s3c_ts_dev_def)
qed (use assms in \<open>auto simp: pen_down_up_irq_handler_def s3c_ts_timer_function_def ts_inv_def
      enter_wait_pen_down_mode_def start_adc_def enter_measure_xy_mode_def release_report_def
      frame_ok_def s3c_ts_dev_def Let_def\<close>)

lemma ts_loaded_inv: "ts_inv ts_loaded"
  by (simp add: ts_inv_def ts_loaded_def enter_wait_pen_down_mode_def samples_ok_def)

lemma ts_run_inv: "ts_run s es \<Longrightarrow> ts_inv s \<and> list_all (accepts s3c_ts_dev) es \<and> pending es = []"
proof (induction rule: ts_run.induct)
  case loaded
  then show ?case by (simp add: ts_loaded_inv pending_def)
next
  case (step s es i t fs)
  then show ?case
    using ts_step_ok [of s i] pending_frame [of fs es] by auto
qed

section \<open>Reports\<close>

definition ts_handle :: "ts_input \<Rightarrow> ts \<Rightarrow> ts" where
  "ts_handle i s = (case ts_step i s of Inl _ \<Rightarrow> s | Inr (t, _) \<Rightarrow> t)"

definition ts_reports :: "ts_input \<Rightarrow> ts \<Rightarrow> input_event list" where
  "ts_reports i s = (case ts_step i s of Inl _ \<Rightarrow> [] | Inr (_, fs) \<Rightarrow> fs)"

lemma ts_step_frame: "ts_step i s = Inr (t, fs) \<Longrightarrow> frame_ok fs"
  by (cases i) (auto simp: pen_down_up_irq_handler_def s3c_ts_timer_function_def adc_irq_def Let_def
      release_report_def frame_ok_def ebind_eq_Inr split: if_splits)

interpretation ts: reporter ts_handle ts_reports
proof
  fix i s
  show "frame_ok (ts_reports i s)"
    using ts_step_frame [of i s] by (auto simp: ts_reports_def frame_ok_def split: sum.splits)
qed

lemma ts_stream_run: "ts_run s es \<Longrightarrow> ts_run (fold ts_handle is s) (es @ ts.stream is s)"
proof (induction "is" arbitrary: s es)
  case (Cons i "is")
  obtain t fs where t: "ts_step i s = Inr (t, fs)" using ts_run_inv [OF Cons.prems] ts_step_ok by blast
  then have "ts_handle i s = t" "ts_reports i s = fs" by (simp_all add: ts_handle_def ts_reports_def)
  then show ?case using Cons.IH [OF ts_run.step [OF Cons.prems t]] by simp
qed simp

text \<open>C9: In every state the driver can reach, whatever the registers held, a sample has a slot
  to go to, so no handler writes outside its arrays; every event is one the device
  has declared (the coordinates ten bits wide, the pressure a bit), so the input core drops none; and
  every report is closed.\<close>
theorem ts_reachable_safe:
  assumes "ts_run s es"
  shows "cnt s < 4 \<and> adctsc s \<in> {0xd3, 0x1d3, 4} \<and> (\<forall>i. \<exists>t fs. ts_step i s = Inr (t, fs)) \<and>
    list_all (accepts s3c_ts_dev) es \<and> pending es = []"
proof -
  have inv: "ts_inv s" "list_all (accepts s3c_ts_dev) es" "pending es = []" using ts_run_inv [OF assms] by simp_all
  then have "\<forall>i. \<exists>t fs. ts_step i s = Inr (t, fs)" using ts_step_ok by blast
  then show ?thesis using inv unfolding ts_inv_def by blast
qed

theorem ts_reachable_safe_witness:
  "list_all (accepts s3c_ts_dev) (ts.stream [Pen 0 0, Adc 200 5 0xffff 0x1234, Pen 0x8000 0x8000] ts_loaded)"
  using ts_reachable_safe [OF ts_stream_run [OF ts_run.loaded, of "[Pen 0 0, Adc 200 5 0xffff 0x1234, Pen 0x8000 0x8000]"]]
  by simp

section \<open>A touch\<close>

text \<open>The controller converts a position once it is in that mode and the start bit is set.\<close>

definition converting :: "ts \<Rightarrow> bool" where
  "converting s \<longleftrightarrow> adctsc s = 4 \<and> bit (adccon s) 0"

lemma converting_started: "converting (start_adc (enter_measure_xy_mode s))"
  by (simp add: converting_def start_adc_def enter_measure_xy_mode_def bit_or_iff)

text \<open>A conversion that counts as a sample, the first three and the last.\<close>

lemma adc_sample:
  assumes "ts_inv s" "\<not> adc_is_up d0 d1" "cnt s < 3"
  shows "\<exists>t. ts_step (Adc HZ now d0 d1) s = Inr (t, []) \<and> ts_inv t \<and> converting t \<and> cnt t = cnt s + 1 \<and>
    xs t = (xs s)[cnt s := uint (d0 AND 0x3ff)] \<and> ys t = (ys s)[cnt s := uint (d1 AND 0x3ff)]"
  using assms samples_put [of "xs s" "cnt s" d0] samples_put [of "ys s" "cnt s" d1]
  by (simp add: adc_irq_def ts_inv_def samples_ok_def Let_def converting_started)
     (simp add: start_adc_def enter_measure_xy_mode_def)

lemma adc_sample_handled:
  fixes HZ now :: nat
  assumes "ts_inv s" "\<not> adc_is_up d0 d1" "cnt s < 3"
  defines "t \<equiv> ts_handle (Adc HZ now d0 d1) s"
  shows "ts_reports (Adc HZ now d0 d1) s = []" "ts_inv t" "converting t" "cnt t = cnt s + 1"
    "xs t = (xs s)[cnt s := uint (d0 AND 0x3ff)]" "ys t = (ys s)[cnt s := uint (d1 AND 0x3ff)]"
  using adc_sample [OF assms(1-3), of HZ now] unfolding t_def ts_handle_def ts_reports_def by auto

lemma adc_last_sample:
  assumes "ts_inv s" "\<not> adc_is_up d0 d1" "cnt s = 3"
  shows "\<exists>t. ts_step (Adc HZ now d0 d1) s = Inr (t,
      [AbsEvent ABS_X (nat (average ((xs s)[3 := uint (d0 AND 0x3ff)]))),
       AbsEvent ABS_Y (nat (average ((ys s)[3 := uint (d1 AND 0x3ff)]))),
       AbsEvent ABS_PRESSURE 1, KeyEvent BTN_TOUCH 1, Sync]) \<and>
    ts_inv t \<and> cnt t = 0 \<and> adctsc t = 0x1d3 \<and> ts_timer t = Some (now + HZ div 10)"
  using assms samples_put [of "xs s" 3 d0] samples_put [of "ys s" 3 d1]
  by (simp add: adc_irq_def ts_inv_def samples_ok_def Let_def adc_out_def enter_wait_pen_up_mode_def)

lemma list_4: "length v = 4 \<Longrightarrow> v[0 := a, 1 := b, 2 := c, 3 := d] = [a, b, c, (d :: int)]"
  by (auto simp: length_Suc_conv eval_nat_numeral)

text \<open>The report of a touch at four positions: the averages.\<close>

definition touch_report :: "(u32 \<times> u32) list \<Rightarrow> input_event list" where
  "touch_report ps =
     [AbsEvent ABS_X (nat ((\<Sum>p \<leftarrow> ps. uint (fst p AND 0x3ff)) div 4)),
      AbsEvent ABS_Y (nat ((\<Sum>p \<leftarrow> ps. uint (snd p AND 0x3ff)) div 4)),
      AbsEvent ABS_PRESSURE 1, KeyEvent BTN_TOUCH 1, Sync]"

lemma four_samples:
  fixes HZ n1 n2 n3 n4 :: nat
  assumes s: "ts_inv s" "cnt s = 0"
    and down: "\<not> adc_is_up a0 a1" "\<not> adc_is_up b0 b1" "\<not> adc_is_up c0 c1" "\<not> adc_is_up d0 d1"
  defines "is \<equiv> [Adc HZ n1 a0 a1, Adc HZ n2 b0 b1, Adc HZ n3 c0 c1, Adc HZ n4 d0 d1]"
  defines "t \<equiv> fold ts_handle is s"
  shows "ts.stream is s = touch_report [(a0, a1), (b0, b1), (c0, c1), (d0, d1)]"
    "ts_inv t" "cnt t = 0" "adctsc t = 0x1d3" "ts_timer t = Some (n4 + HZ div 10)"
proof -
  have len: "length (xs s) = 4" "length (ys s) = 4" using s(1) by (simp_all add: ts_inv_def samples_ok_def)
  define u where "u = ts_handle (Adc HZ n1 a0 a1) s"
  define v where "v = ts_handle (Adc HZ n2 b0 b1) u"
  define w where "w = ts_handle (Adc HZ n3 c0 c1) v"
  note u = adc_sample_handled [OF s(1) down(1), of HZ n1, folded u_def, unfolded s(2), simplified]
  note v = adc_sample_handled [OF u(2) down(2), of HZ n2, folded v_def, unfolded u(4), simplified]
  note w = adc_sample_handled [OF v(2) down(3), of HZ n3, folded w_def, unfolded v(4), simplified]
  have "cnt w = 3" using w(4) by simp
  from adc_last_sample [OF w(2) down(4) this, of HZ n4] obtain x where
    x: "ts_step (Adc HZ n4 d0 d1) w = Inr (x,
      [AbsEvent ABS_X (nat (average ((xs w)[3 := uint (d0 AND 0x3ff)]))),
       AbsEvent ABS_Y (nat (average ((ys w)[3 := uint (d1 AND 0x3ff)]))),
       AbsEvent ABS_PRESSURE 1, KeyEvent BTN_TOUCH 1, Sync])"
      "ts_inv x" "cnt x = 0" "adctsc x = 0x1d3" "ts_timer x = Some (n4 + HZ div 10)"
    by blast
  have last: "ts_handle (Adc HZ n4 d0 d1) w = x" by (simp only: ts_handle_def x(1) sum.case prod.case)
  have t: "t = x" by (simp add: t_def is_def last flip: u_def v_def w_def)
  show "ts_inv t" "cnt t = 0" "adctsc t = 0x1d3" "ts_timer t = Some (n4 + HZ div 10)"
    using x by (simp_all add: t)
  have "(xs w)[3 := uint (d0 AND 0x3ff)] =
      [uint (a0 AND 0x3ff), uint (b0 AND 0x3ff), uint (c0 AND 0x3ff), uint (d0 AND 0x3ff)]"
    using list_4 [OF len(1)] by (simp add: w(5) v(5) u(5) numeral_2_eq_2)
  moreover have "(ys w)[3 := uint (d1 AND 0x3ff)] =
      [uint (a1 AND 0x3ff), uint (b1 AND 0x3ff), uint (c1 AND 0x3ff), uint (d1 AND 0x3ff)]"
    using list_4 [OF len(2)] by (simp add: w(6) v(6) u(6) numeral_2_eq_2)
  ultimately have "ts_reports (Adc HZ n4 d0 d1) w = touch_report [(a0, a1), (b0, b1), (c0, c1), (d0, d1)]"
    by (simp add: ts_reports_def x(1) touch_report_def average_def add.assoc del: ts_step.simps)
  then show "ts.stream is s = touch_report [(a0, a1), (b0, b1), (c0, c1), (d0, d1)]"
    by (simp add: is_def u(1) v(1) w(1) flip: u_def v_def w_def)
qed

text \<open>C18: A touch is measured four times and reported once: four conversions with the pen down give one
  report of a touch, at the integer averages of the four positions, arm the timer for a tenth
  of a second, and wait for the pen to go up with the count back at 0.\<close>
theorem four_samples_one_report:
  assumes "ts_inv s" "cnt s = 0" "\<not> adc_is_up a0 a1" "\<not> adc_is_up b0 b1" "\<not> adc_is_up c0 c1" "\<not> adc_is_up d0 d1"
  shows "ts.stream [Adc HZ n1 a0 a1, Adc HZ n2 b0 b1, Adc HZ n3 c0 c1, Adc HZ n4 d0 d1] s =
      [AbsEvent ABS_X (nat ((uint (a0 AND 0x3ff) + uint (b0 AND 0x3ff) + uint (c0 AND 0x3ff) + uint (d0 AND 0x3ff)) div 4)),
       AbsEvent ABS_Y (nat ((uint (a1 AND 0x3ff) + uint (b1 AND 0x3ff) + uint (c1 AND 0x3ff) + uint (d1 AND 0x3ff)) div 4)),
       AbsEvent ABS_PRESSURE 1, KeyEvent BTN_TOUCH 1, Sync] \<and>
    (let t = fold ts_handle [Adc HZ n1 a0 a1, Adc HZ n2 b0 b1, Adc HZ n3 c0 c1, Adc HZ n4 d0 d1] s in
      cnt t = 0 \<and> adctsc t = 0x1d3 \<and> ts_timer t = Some (n4 + HZ div 10))"
  unfolding Let_def four_samples [OF assms] by (simp add: touch_report_def add.assoc)

theorem four_samples_one_report_witness:
  "ts.stream [Adc 200 1 0x100 0x200, Adc 200 2 0x102 0x200, Adc 200 3 0x104 0x204, Adc 200 4 0x106 0x204] ts_loaded =
     [AbsEvent ABS_X 0x103, AbsEvent ABS_Y 0x202, AbsEvent ABS_PRESSURE 1, KeyEvent BTN_TOUCH 1, Sync]"
  using four_samples_one_report [OF ts_loaded_inv, of "0x100" "0x200" "0x102" "0x200" "0x104" "0x204" "0x106" "0x204" 200 1 2 3 4]
  by (simp add: adc_is_up_def ts_loaded_def enter_wait_pen_down_mode_def)

section \<open>Where the readings go wrong\<close>

text \<open>The release test of the conversion looks at bit 0 of the first register where it means bit 15, the
  pen's state: a pen that is up is taken for down whenever the position read is even. The fourth such
  conversion reports a touch to a user who has let go.\<close>
theorem release_missed:
  assumes "ts_inv s" "TS_IS_UP d0 d1" "\<not> bit d0 0"
  shows "\<not> adc_is_up d0 d1 \<and> (cnt s = 3 \<longrightarrow>
    KeyEvent BTN_TOUCH 1 \<in> set (ts_reports (Adc HZ now d0 d1) s))"
proof -
  have up: "\<not> adc_is_up d0 d1"
    using assms(3) by (simp add: adc_is_up_def and_one_eq even_iff_mod_2_eq_zero [symmetric] bit_0)
  have "KeyEvent BTN_TOUCH 1 \<in> set (ts_reports (Adc HZ now d0 d1) s)" if "cnt s = 3"
    using adc_last_sample [OF assms(1) up that, of HZ now] by (auto simp: ts_reports_def simp del: ts_step.simps)
  then show ?thesis using up by blast
qed

theorem release_missed_witness:
  "KeyEvent BTN_TOUCH 1 \<in> set (ts_reports (Adc 200 9 0x8100 0x8100) (ts_loaded\<lparr>cnt := 3\<rparr>))"
proof -
  have "ts_inv (ts_loaded\<lparr>cnt := 3\<rparr>)" using ts_loaded_inv by (simp add: ts_inv_def)
  moreover have "TS_IS_UP 0x8100 0x8100" "\<not> bit (0x8100 :: u32) 0" by (simp_all add: TS_IS_UP_def)
  ultimately show ?thesis using release_missed [of "ts_loaded\<lparr>cnt := 3\<rparr>" "0x8100" "0x8100" 200 9] by simp
qed

text \<open>The count of the samples outlives a touch: when the pen goes up after one sample, seen by
  the pen interrupt, the next touch starts with that sample. Here a first touch at position 1023 makes
  a second one, at 0, be reported at 255.\<close>
theorem stale_sample:
  "ts.stream [Pen 0 0, Adc 200 1 0x3ff 0, Pen 0x8000 0x8000, Pen 0 0,
      Adc 200 2 0 0, Adc 200 3 0 0, Adc 200 4 0 0] ts_loaded =
    release_report @ [AbsEvent ABS_X 255, AbsEvent ABS_Y 0, AbsEvent ABS_PRESSURE 1, KeyEvent BTN_TOUCH 1, Sync]"
  by (simp add: ts_reports_def ts_handle_def ts_loaded_def pen_down_up_irq_handler_def TS_IS_UP_def adc_irq_def
      adc_is_up_def enter_wait_pen_down_mode_def enter_measure_xy_mode_def start_adc_def adc_out_def
      enter_wait_pen_up_mode_def average_def release_report_def)

section \<open>Initialisation and exit\<close>

text \<open>The error path releases the interrupt, the mapping and the clock that were acquired, in reverse,
  but every path through a registered device frees it twice. The exit does so too, and before
  that leaves the clock enabled and the timer armed.\<close>
theorem ts_ledger:
  assumes "ts_idev_ok env" "ts_register_ret env = 0"
  shows "fst (my_ts_init env) = 0 \<and> ledger (snd (my_ts_init env) @ my_ts_exit) = None \<and>
      ledger (snd (my_ts_init env) @ butlast my_ts_exit) = Some {#Clk, ClkOn, Timer#} \<or>
    fst (my_ts_init env) \<noteq> 0 \<and> ledger (snd (my_ts_init env)) = None \<and>
      ledger (butlast (snd (my_ts_init env))) = Some {#}"
  using assms
  by (auto simp: my_ts_init_def my_ts_exit_def err_irq_tc_def err_iomap_def err_free_clk_def
      err_input_unregister_def err_free_input_dev_def ledger_def Let_def)

theorem ts_ledger_witness:
  "ledger (snd (my_ts_init \<lparr>ts_idev_ok = True, ts_register_ret = 0, clk_ok = True, iomap_ok = True,
     tc_ret = 0, adc_ret = 0\<rparr>) @ butlast my_ts_exit) = Some {#Clk, ClkOn, Timer#}"
  using ts_ledger [of "\<lparr>ts_idev_ok = True, ts_register_ret = 0, clk_ok = True, iomap_ok = True, tc_ret = 0, adc_ret = 0\<rparr>"]
  by (simp add: my_ts_init_def)

end
