(* ===== verification/Touch_Live.thy ===== *)
theory Touch_Live
  imports Touchscreen
begin

text \<open>
  The touch screen as long as the pen is held: the cycle of conversions, report and timer goes on by
  itself, every interrupt it waits for having been asked for.
\<close>

section \<open>A round of a held pen\<close>

text \<open>Four conversions, with the two registers and the time of each, and the expiry with its registers.\<close>

type_synonym held = "(nat \<times> u32 \<times> u32) list \<times> u32 \<times> u32"

definition held_round :: "nat \<Rightarrow> held \<Rightarrow> ts_input list" where
  "held_round HZ r = map (\<lambda>(now, d0, d1). Adc HZ now d0 d1) (fst r) @ [Expiry (fst (snd r)) (snd (snd r))]"

definition pen_held :: "held \<Rightarrow> bool" where
  "pen_held r \<longleftrightarrow> length (fst r) = 4 \<and> list_all (\<lambda>(now, d0, d1). \<not> adc_is_up d0 d1) (fst r) \<and>
     \<not> TS_IS_UP (fst (snd r)) (snd (snd r))"

definition held_report :: "held \<Rightarrow> input_event list" where
  "held_report r = touch_report (map snd (fst r))"

lemma pen_heldE:
  assumes "pen_held r"
  obtains n1 a0 a1 n2 b0 b1 n3 c0 c1 n4 d0 d1 e0 e1 where
    "r = ([(n1, a0, a1), (n2, b0, b1), (n3, c0, c1), (n4, d0, d1)], e0, e1)"
    "\<not> adc_is_up a0 a1" "\<not> adc_is_up b0 b1" "\<not> adc_is_up c0 c1" "\<not> adc_is_up d0 d1" "\<not> TS_IS_UP e0 e1"
proof -
  obtain ps e0 e1 where r: "r = (ps, e0, e1)" by (cases r)
  then have "length ps = 4" using assms by (simp add: pen_held_def)
  then obtain p1 p2 p3 p4 where "ps = [p1, p2, p3, p4]"
    by (auto simp: eval_nat_numeral length_Suc_conv)
  then show thesis
    using that r assms by (cases p1; cases p2; cases p3; cases p4) (simp add: pen_held_def)
qed

section \<open>What is reported\<close>

lemma expiry_down:
  assumes "\<not> TS_IS_UP d0 d1"
  shows "ts_reports (Expiry d0 d1) s = []" "converting (ts_handle (Expiry d0 d1) s)"
    "cnt (ts_handle (Expiry d0 d1) s) = cnt s" "ts_inv s \<Longrightarrow> ts_inv (ts_handle (Expiry d0 d1) s)"
  using assms
  by (simp_all add: ts_reports_def ts_handle_def s3c_ts_timer_function_def converting_started)
     (simp_all add: start_adc_def enter_measure_xy_mode_def ts_inv_def)

lemma pen_down:
  assumes "\<not> TS_IS_UP d0 d1"
  shows "ts_reports (Pen d0 d1) s = []" "converting (ts_handle (Pen d0 d1) s)"
    "cnt (ts_handle (Pen d0 d1) s) = cnt s" "ts_inv s \<Longrightarrow> ts_inv (ts_handle (Pen d0 d1) s)"
  using assms
  by (simp_all add: ts_reports_def ts_handle_def pen_down_up_irq_handler_def converting_started)
     (simp_all add: start_adc_def enter_measure_xy_mode_def ts_inv_def)

lemma stream_append: "ts.stream (is @ js) s = ts.stream is s @ ts.stream js (fold ts_handle is s)"
  by (induction "is" arbitrary: s) simp_all

lemma held_round_reports:
  fixes HZ :: nat
  assumes s: "ts_inv s" "cnt s = 0" and r: "pen_held r"
  defines "t \<equiv> fold ts_handle (held_round HZ r) s"
  shows "ts.stream (held_round HZ r) s = held_report r" "ts_inv t" "cnt t = 0"
proof -
  from r obtain n1 a0 a1 n2 b0 b1 n3 c0 c1 n4 d0 d1 e0 e1 where
    r_eq: "r = ([(n1, a0, a1), (n2, b0, b1), (n3, c0, c1), (n4, d0, d1)], e0, e1)"
    and down: "\<not> adc_is_up a0 a1" "\<not> adc_is_up b0 b1" "\<not> adc_is_up c0 c1" "\<not> adc_is_up d0 d1" "\<not> TS_IS_UP e0 e1"
    by (rule pen_heldE)
  let ?is = "[Adc HZ n1 a0 a1, Adc HZ n2 b0 b1, Adc HZ n3 c0 c1, Adc HZ n4 d0 d1]"
  define u where "u = fold ts_handle ?is s"
  note four = four_samples [OF s(1,2) down(1-4), of HZ n1 n2 n3 n4, folded u_def]
  have round: "held_round HZ r = ?is @ [Expiry e0 e1]" by (simp add: held_round_def r_eq)
  have t: "t = ts_handle (Expiry e0 e1) u" unfolding t_def round fold_append by (simp add: u_def)
  show "ts_inv t" "cnt t = 0" using four(2,3) expiry_down [OF down(5), of u] by (simp_all add: t)
  show "ts.stream (held_round HZ r) s = held_report r"
    unfolding round stream_append four(1) u_def [symmetric] by (simp add: expiry_down [OF down(5)] held_report_def r_eq)
qed

lemma held_rounds_report:
  "ts_inv s \<Longrightarrow> cnt s = 0 \<Longrightarrow> list_all pen_held rs \<Longrightarrow>
    ts.stream (concat (map (held_round HZ) rs)) s = concat (map held_report rs)"
proof (induction rs arbitrary: s)
  case (Cons r rs)
  then have "pen_held r" "list_all pen_held rs" by simp_all
  note r = held_round_reports [OF Cons.prems(1,2) this(1), of HZ]
  show ?case using Cons.IH [OF r(2,3) \<open>list_all pen_held rs\<close>] r(1) by (simp add: stream_append)
qed simp

section \<open>What is due\<close>

text \<open>
  What the hardware has been asked for: the two modes that wait for the pen raise its interrupt, a started
  conversion of the position ends in a conversion interrupt, and a timer that is armed expires. The
  controller clears the start bit when it starts the conversion, so each has to be started anew.
\<close>

fun due :: "ts_input \<Rightarrow> ts \<Rightarrow> bool" where
  "due (Pen d0 d1) s = (adctsc s \<in> {0xd3, 0x1d3})"
| "due (Adc HZ now d0 d1) s = converting s"
| "due (Expiry d0 d1) s = (ts_timer s \<noteq> None)"

fun settle :: "ts_input \<Rightarrow> ts \<Rightarrow> ts" where
  "settle (Adc HZ now d0 d1) s = s\<lparr>adccon := adccon s AND NOT 1\<rparr>"
| "settle i s = s"

definition happen :: "ts_input \<Rightarrow> ts \<Rightarrow> ts" where
  "happen i s = ts_handle i (settle i s)"

primrec all_due :: "ts_input list \<Rightarrow> ts \<Rightarrow> bool" where
  "all_due [] s = True"
| "all_due (i # is) s = (due i s \<and> all_due is (happen i s))"

lemma all_due_append: "all_due (is @ js) s \<longleftrightarrow> all_due is s \<and> all_due js (fold happen is s)"
  by (induction "is" arbitrary: s) simp_all

lemma settled [simp]: "ts_inv (settle i s) = ts_inv s" "cnt (settle i s) = cnt s"
  by (cases i; simp add: ts_inv_def)+

lemma happen_other:
  "happen (Pen d0 d1) s = ts_handle (Pen d0 d1) s" "happen (Expiry d0 d1) s = ts_handle (Expiry d0 d1) s"
  by (simp_all add: happen_def)

declare settle.simps [simp del]

lemma happen_sample:
  assumes "ts_inv s" "\<not> adc_is_up d0 d1" "cnt s < 3"
  shows "ts_inv (happen (Adc HZ now d0 d1) s)" "converting (happen (Adc HZ now d0 d1) s)"
    "cnt (happen (Adc HZ now d0 d1) s) = cnt s + 1"
  using adc_sample_handled [of "settle (Adc HZ now d0 d1) s" d0 d1 HZ now] assms
  unfolding happen_def by simp_all

lemma happen_last:
  assumes "ts_inv s" "\<not> adc_is_up d0 d1" "cnt s = 3"
  shows "ts_inv (happen (Adc HZ now d0 d1) s)" "cnt (happen (Adc HZ now d0 d1) s) = 0"
    "ts_timer (happen (Adc HZ now d0 d1) s) = Some (now + HZ div 10)"
  using adc_last_sample [of "settle (Adc HZ now d0 d1) s" d0 d1 HZ now] assms
  unfolding happen_def ts_handle_def by (auto simp del: ts_step.simps)

lemma held_round_due:
  fixes HZ :: nat
  assumes s: "ts_inv s" "cnt s = 0" "converting s" and r: "pen_held r"
  defines "t \<equiv> fold happen (held_round HZ r) s"
  shows "all_due (held_round HZ r) s" "ts_inv t" "cnt t = 0" "converting t"
proof -
  from r obtain n1 a0 a1 n2 b0 b1 n3 c0 c1 n4 d0 d1 e0 e1 where
    r_eq: "r = ([(n1, a0, a1), (n2, b0, b1), (n3, c0, c1), (n4, d0, d1)], e0, e1)"
    and down: "\<not> adc_is_up a0 a1" "\<not> adc_is_up b0 b1" "\<not> adc_is_up c0 c1" "\<not> adc_is_up d0 d1" "\<not> TS_IS_UP e0 e1"
    by (rule pen_heldE)
  define u where "u = happen (Adc HZ n1 a0 a1) s"
  define v where "v = happen (Adc HZ n2 b0 b1) u"
  define w where "w = happen (Adc HZ n3 c0 c1) v"
  define x where "x = happen (Adc HZ n4 d0 d1) w"
  note u = happen_sample [OF s(1) down(1), of HZ n1, folded u_def, unfolded s(2), simplified]
  note v = happen_sample [OF u(1) down(2), of HZ n2, folded v_def, unfolded u(3), simplified]
  note w = happen_sample [OF v(1) down(3), of HZ n3, folded w_def, unfolded v(3), simplified]
  have "cnt w = 3" using w(3) by simp
  note x = happen_last [OF w(1) down(4) this, of HZ n4, folded x_def]
  have t: "t = ts_handle (Expiry e0 e1) x"
    by (simp add: t_def held_round_def r_eq u_def v_def w_def x_def happen_other)
  show "ts_inv t" "cnt t = 0" "converting t"
    using x(1,2) expiry_down [OF down(5), of x] unfolding t by simp_all
  show "all_due (held_round HZ r) s"
    using s(3) u(2) v(2) w(2) x(3)
    by (simp add: held_round_def r_eq flip: u_def v_def w_def x_def)
qed

lemma held_rounds_due:
  "ts_inv s \<Longrightarrow> cnt s = 0 \<Longrightarrow> converting s \<Longrightarrow> list_all pen_held rs \<Longrightarrow>
    all_due (concat (map (held_round HZ) rs)) s \<and> converting (fold happen (concat (map (held_round HZ) rs)) s)"
proof (induction rs arbitrary: s)
  case (Cons r rs)
  then have "pen_held r" "list_all pen_held rs" by simp_all
  note r = held_round_due [OF Cons.prems(1-3) this(1), of HZ]
  show ?case using Cons.IH [OF r(2-4) \<open>list_all pen_held rs\<close>] r(1) by (simp add: all_due_append)
qed simp

section \<open>Liveness\<close>

text \<open>C19: A held pen keeps reporting: from any state the driver can reach that waits for a pen with no sample pending,
  a pen that goes down and stays down is reported once in every round, at the averages of
  that round, for as many rounds as it is held; every interrupt and every expiry on the way is one the driver has
  asked for (a started conversion, an armed timer), and at the end the next one is again due.\<close>
theorem held_pen_keeps_reporting:
  assumes "ts_run s es" "cnt s = 0" "adctsc s \<noteq> 4" "\<not> TS_IS_UP d0 d1" "list_all pen_held rs"
  shows "(let is = Pen d0 d1 # concat (map (held_round HZ) rs) in
    ts.stream is s = concat (map held_report rs) \<and> all_due is s \<and> converting (fold happen is s) \<and>
    length (filter (\<lambda>e. e = KeyEvent BTN_TOUCH 1) (ts.stream is s)) = length rs)"
proof -
  have inv: "ts_inv s" using ts_run_inv [OF assms(1)] by simp
  note p = pen_down [OF assms(4), of s]
  have cnt: "cnt (ts_handle (Pen d0 d1) s) = 0" by (simp add: p(3) assms(2))
  note reports = held_rounds_report [OF p(4) [OF inv] cnt assms(5), of HZ]
  note dues = held_rounds_due [OF p(4) [OF inv] cnt p(2) assms(5), of HZ]
  have "length (filter (\<lambda>e. e = KeyEvent BTN_TOUCH 1) (concat (map held_report rs))) = length rs"
    by (induction rs) (simp_all add: held_report_def touch_report_def)
  moreover have "due (Pen d0 d1) s" using inv assms(3) by (auto simp: ts_inv_def)
  ultimately show ?thesis using reports dues by (simp add: p(1) happen_other Let_def)
qed

theorem held_pen_keeps_reporting_witness:
  "ts.stream (Pen 0 0 # concat (map (held_round 200)
      [([(1, 4, 8), (2, 4, 8), (3, 4, 8), (4, 4, 8)], 0, 0), ([(25, 6, 8), (26, 6, 8), (27, 8, 8), (28, 8, 8)], 0, 0)])) ts_loaded =
    [AbsEvent ABS_X 4, AbsEvent ABS_Y 8, AbsEvent ABS_PRESSURE 1, KeyEvent BTN_TOUCH 1, Sync,
     AbsEvent ABS_X 7, AbsEvent ABS_Y 8, AbsEvent ABS_PRESSURE 1, KeyEvent BTN_TOUCH 1, Sync]"
proof -
  let ?rs = "[([(1, 4, 8), (2, 4, 8), (3, 4, 8), (4, 4, 8)], 0, 0), ([(25, 6, 8), (26, 6, 8), (27, 8, 8), (28, 8, 8)], 0, 0)]"
  have loaded: "cnt ts_loaded = 0" "adctsc ts_loaded \<noteq> 4" by (simp_all add: ts_loaded_def enter_wait_pen_down_mode_def)
  have down: "\<not> TS_IS_UP 0 0" "list_all pen_held ?rs" by (simp_all add: pen_held_def adc_is_up_def TS_IS_UP_def)
  note held_pen_keeps_reporting [OF ts_run.loaded loaded down, of 200, unfolded Let_def, THEN conjunct1]
  also have "concat (map held_report ?rs) = [AbsEvent ABS_X 4, AbsEvent ABS_Y 8, AbsEvent ABS_PRESSURE 1, KeyEvent BTN_TOUCH 1, Sync,
     AbsEvent ABS_X 7, AbsEvent ABS_Y 8, AbsEvent ABS_PRESSURE 1, KeyEvent BTN_TOUCH 1, Sync]"
    by (simp add: held_report_def touch_report_def)
  finally show ?thesis .
qed

end
