(* ===== verification/Lcd.thy ===== *)
theory Lcd
  imports Kernel
begin

text \<open>
  The frame buffer driver, \<open>lcd/lcd_2440fb.c\<close>: the palette, the values of the controller's and
  the GPIO registers after the initialisation, and what initialisation and exit acquire and
  release; and \<open>s3c_lcd_set_par\<close>, which is compiled out, compared with what is in use.
\<close>

section \<open>Data\<close>

record lcd_regs =
  lcdcon1 :: u32
  lcdcon2 :: u32
  lcdcon3 :: u32
  lcdcon4 :: u32
  lcdcon5 :: u32
  lcdsaddr1 :: u32
  lcdsaddr2 :: u32
  lcdsaddr3 :: u32
  tpal :: u32

record gpio_regs =
  gpbcon :: u32
  gpbdat :: u32
  gpccon :: u32
  gpcup :: u32
  gpdcon :: u32
  gpdup :: u32
  gpgcon :: u32

record fb_bitfield =
  offset :: nat
  length_of :: nat

record fb_info =
  smem_start :: u32
  smem_len :: u32
  line_length :: u32
  xres :: u32
  yres :: u32
  bits_per_pixel :: u32
  red :: fb_bitfield
  green :: fb_bitfield
  blue :: fb_bitfield
  screen_size :: u32

section \<open>The palette\<close>

definition chan_to_field :: "u32 \<Rightarrow> fb_bitfield \<Rightarrow> u32" where
  "chan_to_field chan bf =
     (let chan = chan AND 0xffff;
          chan = drop_bit (16 - length_of bf) chan
      in push_bit (offset bf) chan)"

definition s3c_lcdfb_setcolreg ::
  "u32 \<Rightarrow> u32 \<Rightarrow> u32 \<Rightarrow> u32 \<Rightarrow> fb_info \<Rightarrow> u32 list \<Rightarrow> fault + (int \<times> u32 list)" where
  "s3c_lcdfb_setcolreg regno r g b info pseudo_palette =
     (if regno > 16 then Inr (1, pseudo_palette)
      else
        let val = chan_to_field r (red info);
            val = val OR chan_to_field g (green info);
            val = val OR chan_to_field b (blue info)
        in ebind (put pseudo_palette (unat regno) val) (\<lambda>pal. Inr (0, pal)))"

section \<open>Initialisation\<close>

text \<open>The fixed and variable parameters.\<close>

definition mylcd_info :: fb_info where
  "mylcd_info = \<lparr>smem_start = 0, smem_len = 240 * 320 * 16 div 8, line_length = 240 * 2, xres = 240, yres = 320,
     bits_per_pixel = 16, red = \<lparr>offset = 11, length_of = 5\<rparr>, green = \<lparr>offset = 5, length_of = 6\<rparr>,
     blue = \<lparr>offset = 0, length_of = 5\<rparr>, screen_size = 240 * 320 * 2\<rparr>"

text \<open>The pins: from the values the registers had.\<close>

definition setup_pins :: "gpio_regs \<Rightarrow> gpio_regs" where
  "setup_pins g =
     (let g = g\<lparr>gpccon := 0xaaaaaaaa, gpcup := 0xffff, gpdcon := 0xaaaaaaaa, gpdup := 0xffff\<rparr>;
          g = g\<lparr>gpbcon := gpbcon g AND NOT 3\<rparr>;
          g = g\<lparr>gpbcon := gpbcon g OR 1\<rparr>;
          g = g\<lparr>gpbdat := gpbdat g AND NOT 1\<rparr>
      in g\<lparr>gpgcon := gpgcon g OR push_bit (4 * 2) 3\<rparr>)"

definition setup_timing :: "lcd_regs \<Rightarrow> lcd_regs" where
  "setup_timing l = l\<lparr>
     lcdcon1 := push_bit 8 4 OR push_bit 5 3 OR push_bit 1 0xc,
     lcdcon2 := push_bit 24 7 OR push_bit 14 319 OR push_bit 6 1 OR push_bit 0 0,
     lcdcon3 := push_bit 19 7 OR push_bit 8 239 OR push_bit 0 10,
     lcdcon4 := push_bit 0 4,
     lcdcon5 := push_bit 11 1 OR push_bit 9 1 OR push_bit 8 1 OR push_bit 0 1\<rparr>"

definition setup_address :: "fb_info \<Rightarrow> lcd_regs \<Rightarrow> lcd_regs" where
  "setup_address info l =
     (let l = l\<lparr>
        lcdsaddr1 := drop_bit 1 (smem_start info) AND NOT (push_bit 30 3),
        lcdsaddr2 := drop_bit 1 (smem_start info + smem_len info) AND 0x1fffff,
        lcdsaddr3 := (240 * 2 div 2) AND 0x3ff,
        tpal := 0\<rparr>;
          l = l\<lparr>lcdcon1 := lcdcon1 l OR push_bit 0 1\<rparr>
      in l\<lparr>lcdcon5 := lcdcon5 l OR push_bit 3 1\<rparr>)"

text \<open>The function between \<open>#if 0\<close> and \<open>#endif\<close>: the same registers in one go, for the frame's address.\<close>

definition s3c_lcd_set_par :: "fb_info \<Rightarrow> lcd_regs \<Rightarrow> int \<times> lcd_regs" where
  "s3c_lcd_set_par info l =
     (let l = l\<lparr>
        lcdcon1 := push_bit 8 4 OR push_bit 5 3 OR push_bit 1 0xc,
        lcdcon2 := push_bit 24 3 OR push_bit 14 319 OR push_bit 6 1 OR push_bit 0 0,
        lcdcon3 := push_bit 19 16 OR push_bit 8 239 OR push_bit 0 10,
        lcdcon4 := push_bit 0 4,
        lcdcon5 := push_bit 11 1 OR push_bit 9 1 OR push_bit 8 1 OR push_bit 0 1,
        lcdsaddr1 := drop_bit 1 (smem_start info),
        lcdsaddr2 := drop_bit 1 (smem_start info + smem_len info),
        lcdsaddr3 := (240 * 2 div 2) AND 0x3ff,
        tpal := 0\<rparr>;
          l = l\<lparr>lcdcon1 := lcdcon1 l OR push_bit 0 1\<rparr>
      in (0, l\<lparr>lcdcon5 := lcdcon5 l OR push_bit 3 1\<rparr>))"

datatype lcd_res = FbInfo | Iomap nat | Clk | ClkOn | MemRegion | Dma | FbReg

text \<open>
  The results of \<open>framebuffer_alloc\<close>, the five \<open>ioremap\<close>s (four for the pins, one for the
  controller), \<open>clk_get\<close>, \<open>request_mem_region\<close>, \<open>dma_alloc_wc\<close> (the bus address) and
  \<open>register_framebuffer\<close>; what the registers held before.
\<close>

record lcd_env =
  fb_ok :: bool
  map_ok :: "nat \<Rightarrow> bool"
  lcd_clk_ok :: bool
  region_ok :: bool
  dma_addr :: "u32 option"
  register_ok :: bool
  pins_before :: gpio_regs
  regs_before :: lcd_regs

text \<open>
  Only the clock, the region and the memory are checked; a null pointer from the others is used at
  once. The result: return value, calls, and the registers.
\<close>

definition mylcd_init :: "lcd_env \<Rightarrow> fault + (int \<times> lcd_res event list \<times> gpio_regs \<times> lcd_regs \<times> fb_info)" where
  "mylcd_init env =
     (if \<not> fb_ok env then Inl NullDeref
      else if \<not> (map_ok env 0 \<and> map_ok env 1 \<and> map_ok env 2 \<and> map_ok env 3) then Inl NullDeref
      else
        let info = mylcd_info;
            es = Acq FbInfo # map (\<lambda>i. Acq (Iomap i)) [0..<4];
            g = setup_pins (pins_before env)
        in if \<not> lcd_clk_ok env then Inr (- EBUSY, es, g, regs_before env, info)
           else
             let es = es @ [Acq Clk, Acq ClkOn]
             in if \<not> region_ok env then Inr (- ENXIO, es, g, regs_before env, info)
                else if \<not> map_ok env 4 then Inl NullDeref
                else
                  let es = es @ [Acq MemRegion, Acq (Iomap 4)];
                      l = setup_timing (regs_before env)
                  in case dma_addr env of
                       None \<Rightarrow> Inr (- ENOMEM, es, g, l, info)
                     | Some a \<Rightarrow>
                         let info = info\<lparr>smem_start := a\<rparr>;
                             es = es @ [Acq Dma] @ (if register_ok env then [Acq FbReg] else []);
                             l = setup_address info l;
                             g = g\<lparr>gpbdat := gpbdat g OR 1\<rparr>
                         in Inr (0, es, g, l, info))"

definition mylcd_exit :: "gpio_regs \<Rightarrow> gpio_regs \<times> lcd_res event list" where
  "mylcd_exit g =
     (g\<lparr>gpbdat := gpbdat g AND NOT 1\<rparr>,
      [Rel FbReg, Rel Dma, Rel (Iomap 4), Rel MemRegion, Rel (Iomap 0), Rel (Iomap 1), Rel (Iomap 2),
       Rel (Iomap 3), Rel FbInfo])"

section \<open>The palette holds RGB 565\<close>

lemma bits_16: "(x :: u32) AND 0xffff = take_bit 16 x"
  by (simp add: take_bit_eq_mask mask_numeral)

text \<open>The field \<open>lo .. lo + n - 1\<close> of a register.\<close>

definition field :: "nat \<Rightarrow> nat \<Rightarrow> u32 \<Rightarrow> u32" where
  "field lo n w = take_bit n (drop_bit lo w)"

lemma bit_chan_to_field:
  "length_of bf \<le> 16 \<Longrightarrow> offset bf + length_of bf \<le> 32 \<Longrightarrow> bit (chan_to_field c bf) k \<longleftrightarrow>
    offset bf \<le> k \<and> k < offset bf + length_of bf \<and> bit c (k - offset bf + (16 - length_of bf))"
  unfolding chan_to_field_def bits_16 Let_def
  by (auto simp: bit_push_bit_iff bit_drop_bit_eq bit_take_bit_iff add.commute)

text \<open>C36: Setting one of the sixteen colours stores the top five, six and five bits of red, green and blue as
  a 16 bit 5:6:5 value in its entry and leaves the other entries alone.\<close>
theorem setcolreg_565:
  assumes "regno < 16" "length pal = 16"
  shows "\<exists>v. s3c_lcdfb_setcolreg regno r g b mylcd_info pal = Inr (0, pal[unat regno := v]) \<and>
    field 11 5 v = field 11 5 r \<and> field 5 6 v = field 10 6 g \<and> field 0 5 v = field 11 5 b \<and> take_bit 16 v = v"
proof -
  define v where "v = chan_to_field r (red mylcd_info) OR chan_to_field g (green mylcd_info) OR
    chan_to_field b (blue mylcd_info)"
  have "unat regno < 16" using assms(1) by (simp add: word_less_nat_alt)
  then have "s3c_lcdfb_setcolreg regno r g b mylcd_info pal = Inr (0, pal[unat regno := v])"
    using assms by (simp add: s3c_lcdfb_setcolreg_def or.assoc v_def)
  moreover have bits: "bit v k \<longleftrightarrow> (11 \<le> k \<and> k < 16 \<and> bit r k) \<or> (5 \<le> k \<and> k < 11 \<and> bit g (k + 5)) \<or>
      (k < 5 \<and> bit b (k + 11))" for k
    unfolding v_def by (auto simp: bit_or_iff bit_chan_to_field mylcd_info_def add.commute)
  moreover have "field 11 5 v = field 11 5 r" "field 5 6 v = field 10 6 g" "field 0 5 v = field 11 5 b"
      "take_bit 16 v = v"
    by (rule bit_eqI; auto simp: field_def bit_take_bit_iff bit_drop_bit_eq bits ac_simps)+
  ultimately show ?thesis by blast
qed

theorem setcolreg_565_witness:
  "\<exists>v. s3c_lcdfb_setcolreg 15 0xffff 0x8000 0 mylcd_info (replicate 16 0) = Inr (0, (replicate 16 0)[15 := v]) \<and>
     field 11 5 v = 0x1f \<and> field 5 6 v = 0x20"
  using setcolreg_565 [of 15 "replicate 16 0" "0xffff" "0x8000" 0] by (auto simp: field_def)

text \<open>The bound of the colour number is off by one: number 16 is accepted and stored behind the end of
  the palette; from 17 on the call is refused.\<close>
theorem setcolreg_bound:
  assumes "length pal = 16"
  shows "s3c_lcdfb_setcolreg regno r g b info pal =
    (if 16 < regno then Inr (1, pal) else if regno = 16 then Inl OutOfBounds
     else Inr (0, pal[unat regno := chan_to_field r (red info) OR chan_to_field g (green info) OR
       chan_to_field b (blue info)]))"
proof -
  have "regno = 16 \<longleftrightarrow> unat regno = 16" by (simp add: word_unat_eq_iff)
  then show ?thesis
    using assms by (auto simp: s3c_lcdfb_setcolreg_def put_def word_less_nat_alt or.assoc Let_def)
qed

theorem setcolreg_bound_witness:
  "s3c_lcdfb_setcolreg 16 0 0 0 mylcd_info (replicate 16 0) = Inl OutOfBounds"
  using setcolreg_bound [of "replicate 16 0" 16] by simp

section \<open>The registers\<close>

text \<open>The controller is set up for the panel the parameters describe: the line and row counts are those of
  the visible screen, the mode is a TFT panel of 16 bits per pixel in 5:6:5 with half-word swap,
  and the page is a line wide. The video output and the panel's power are on only after
  the addresses are set.\<close>
theorem lcd_timing:
  "field 14 10 (lcdcon2 (setup_timing l)) + 1 = yres mylcd_info \<and>
   field 8 11 (lcdcon3 (setup_timing l)) + 1 = xres mylcd_info \<and>
   field 8 10 (lcdcon1 (setup_timing l)) = 4 \<and> field 5 2 (lcdcon1 (setup_timing l)) = 3 \<and>
   field 1 4 (lcdcon1 (setup_timing l)) = 0xc \<and> bit (lcdcon5 (setup_timing l)) 11 \<and>
   bit (lcdcon5 (setup_timing l)) 0 \<and> \<not> bit (lcdcon1 (setup_timing l)) 0 \<and> \<not> bit (lcdcon5 (setup_timing l)) 3 \<and>
   bit (lcdcon1 (setup_address info (setup_timing l))) 0 \<and> bit (lcdcon5 (setup_address info (setup_timing l))) 3 \<and>
   2 * lcdsaddr3 (setup_address info (setup_timing l)) = line_length mylcd_info"
  by (simp add: setup_timing_def setup_address_def mylcd_info_def field_def Let_def)

text \<open>The porches differ from the ones the comments in the source derive: the vertical back porch is 7 + 1
  lines, not 3 + 1, and the horizontal one 7 + 1 clocks, not 16 + 1.\<close>
theorem lcd_porches_differ:
  "field 24 8 (lcdcon2 (setup_timing l)) = 7 \<and> field 19 7 (lcdcon3 (setup_timing l)) = 7 \<and>
   field 6 8 (lcdcon2 (setup_timing l)) = 2 - 1 \<and> field 0 8 (lcdcon3 (setup_timing l)) = 251 - 240 - 1"
  by (simp add: setup_timing_def field_def)

text \<open>The masks of the address registers: the bits they have.\<close>

lemma start_mask: "(y :: u32) AND NOT (push_bit 30 3) = take_bit 30 y"
proof (rule bit_eqI)
  fix k
  have "bit (push_bit 30 3 :: u32) k \<longleftrightarrow> 30 \<le> k \<and> k < 32"
  proof -
    have three: "(3 :: u32) = mask 2" by (simp add: mask_eq_exp_minus_1)
    show ?thesis unfolding three bit_push_bit_iff bit_mask_iff by auto
  qed
  then show "bit (y AND NOT (push_bit 30 3)) k = bit (take_bit 30 (y)) k"
    using bit_imp_le_length [of "y" k]
    unfolding bit_and_iff bit_not_iff bit_take_bit_iff by auto
qed

lemma end_mask: "(y :: u32) AND 0x1fffff = take_bit 21 y"
  by (simp add: take_bit_eq_mask mask_eq_exp_minus_1)

text \<open>The timing and address set-up in use and the one compiled out agree on every register but the vertical
  and the horizontal back porch, and on the address registers just if the frame's addresses fit the
  bits these registers have: the one compiled out does not mask them.\<close>
theorem set_par_agrees:
  "(let a = snd (s3c_lcd_set_par info l); b = setup_address info (setup_timing l) in
    (a = b\<lparr>lcdcon2 := lcdcon2 a, lcdcon3 := lcdcon3 a\<rparr> \<longleftrightarrow>
       drop_bit 1 (smem_start info) < 2 ^ 30 \<and> drop_bit 1 (smem_start info + smem_len info) < 2 ^ 21) \<and>
    a = b\<lparr>lcdcon2 := lcdcon2 a, lcdcon3 := lcdcon3 a, lcdsaddr1 := lcdsaddr1 a, lcdsaddr2 := lcdsaddr2 a\<rparr> \<and>
    field 24 8 (lcdcon2 a) = 3 \<and> field 24 8 (lcdcon2 b) = 7 \<and> take_bit 24 (lcdcon2 a) = take_bit 24 (lcdcon2 b) \<and>
    field 19 7 (lcdcon3 a) = 16 \<and> field 19 7 (lcdcon3 b) = 7 \<and> take_bit 19 (lcdcon3 a) = take_bit 19 (lcdcon3 b))"
proof -
  have fits: "y = y AND NOT (push_bit 30 3) \<longleftrightarrow> y < 2 ^ 30" "y = y AND 0x1fffff \<longleftrightarrow> y < 2 ^ 21" for y :: u32
    unfolding start_mask end_mask eq_commute [of y]
    by (simp_all add: word_unat_eq_iff unsigned_take_bit_eq take_bit_nat_eq_self_iff word_less_nat_alt)
  show ?thesis
    unfolding s3c_lcd_set_par_def setup_address_def setup_timing_def Let_def snd_conv
    by (cases l; intro conjI) (use fits [of "drop_bit 1 (smem_start info)"] fits [of "drop_bit 1 (smem_start info + smem_len info)"]
      in \<open>simp_all add: field_def\<close>)
qed

text \<open>The controller shows exactly the memory that was allocated: the frame is as large as the screen at 16
  bits per pixel, and the distance from the start to the end register is, in half words and
  modulo the 21 bits the end register has, the size of the frame.\<close>
theorem lcd_window:
  assumes "even (unat (smem_start info))" "smem_len info = smem_len mylcd_info"
    and "unat (smem_start info) + unat (smem_len info) < 2 ^ 32"
  shows "unat (smem_len mylcd_info) = unat (xres mylcd_info) * unat (yres mylcd_info) * 2 \<and>
    screen_size mylcd_info = smem_len mylcd_info \<and>
    2 * (unat (lcdsaddr2 (setup_address info l)) mod 2 ^ 21) =
      2 * ((unat (lcdsaddr1 (setup_address info l)) + unat (smem_len info) div 2) mod 2 ^ 21)"
proof -
  let ?a = "smem_start info" and ?n = "smem_len info"
  have m: "(0x1fffff :: u32) = mask 21" by (simp add: mask_eq_exp_minus_1)
  have end_addr: "unat (drop_bit 1 (?a + ?n) AND 0x1fffff) = ((unat ?a + unat ?n) div 2) mod 2 ^ 21"
    unfolding m take_bit_eq_mask [symmetric]
    using assms(3) by (simp add: unsigned_take_bit_eq unsigned_drop_bit_eq drop_bit_eq_div take_bit_eq_mod
        unat_word_ariths)
  note start_mask [of "drop_bit 1 ?a"]
  moreover have "unat (take_bit 30 (drop_bit 1 ?a)) = (unat ?a div 2) mod 2 ^ 30"
  proof -
    have "unat ?a mod 2 ^ 32 = unat ?a" by (rule mod_less) (rule less_le_trans [OF unsigned_less], simp)
    then show ?thesis
      unfolding unsigned_take_bit_eq unsigned_drop_bit_eq by (simp add: drop_bit_eq_div take_bit_eq_mod)
  qed
  ultimately have start: "unat (drop_bit 1 ?a AND NOT (push_bit 30 3)) = (unat ?a div 2) mod 2 ^ 30"
    by (simp only:)
  have ev: "even (unat ?a)" using assms(1) .
  have "(unat ?a + unat ?n) div 2 = unat ?a div 2 + unat ?n div 2" using ev by (rule div_plus_div_distrib_dvd_left)
  moreover have "(unat ?a div 2 mod 2 ^ 30 + unat ?n div 2) mod 2 ^ 21 = (unat ?a div 2 + unat ?n div 2) mod (2 ^ 21 :: nat)"
  proof -
    have "unat ?a div 2 mod 2 ^ 30 mod 2 ^ 21 = unat ?a div 2 mod 2 ^ 21"
      by (rule mod_mod_cancel) (simp add: le_imp_power_dvd)
    then show ?thesis by (metis mod_add_left_eq)
  qed
  ultimately show ?thesis
    using end_addr start by (simp add: setup_address_def Let_def mylcd_info_def)
qed

text \<open>An even address, not the first one tried.\<close>

theorem lcd_window_witness:
  "\<forall>l. 2 * (unat (lcdsaddr2 (setup_address (mylcd_info\<lparr>smem_start := 0x33c00000\<rparr>) l)) mod 2 ^ 21) =
     2 * ((unat (lcdsaddr1 (setup_address (mylcd_info\<lparr>smem_start := 0x33c00000\<rparr>) l)) + 76800) mod 2 ^ 21)"
proof
  fix l
  show "2 * (unat (lcdsaddr2 (setup_address (mylcd_info\<lparr>smem_start := 0x33c00000\<rparr>) l)) mod 2 ^ 21) =
     2 * ((unat (lcdsaddr1 (setup_address (mylcd_info\<lparr>smem_start := 0x33c00000\<rparr>) l)) + 76800) mod 2 ^ 21)"
    using lcd_window [of "mylcd_info\<lparr>smem_start := 0x33c00000\<rparr>" l] by (simp add: mylcd_info_def)
qed

section \<open>Initialisation and exit\<close>

text \<open>What the driver holds after each ending of its initialisation: no error path releases anything,
  so a missing clock leaves the frame buffer and four mappings behind, a taken region also the
  enabled clock, missing memory also the region and the controller's mapping. Unloading releases all
  but the clock, and releases a frame buffer that was never registered when that had failed.\<close>
theorem lcd_ledger:
  assumes "mylcd_init env = Inr (ret, es, g, l, info)"
  shows "ret = - EBUSY \<and> ledger es = Some ({#FbInfo#} + mset (map Iomap [0..<4])) \<or>
    ret = - ENXIO \<and> ledger es = Some ({#FbInfo, Clk, ClkOn#} + mset (map Iomap [0..<4])) \<or>
    ret = - ENOMEM \<and> ledger es = Some ({#FbInfo, Clk, ClkOn, MemRegion#} + mset (map Iomap [0..<5])) \<or>
    ret = 0 \<and> ledger (es @ snd (mylcd_exit g)) = (if register_ok env then Some {#Clk, ClkOn#} else None)"
  using assms
  by (auto simp: mylcd_init_def mylcd_exit_def ledger_def Let_def upt_conv_Cons eval_nat_numeral
      split: if_splits option.splits)

definition lcd_env0 :: lcd_env where
  "lcd_env0 = \<lparr>fb_ok = True, map_ok = (\<lambda>_. True), lcd_clk_ok = True, region_ok = True, dma_addr = None,
     register_ok = True, pins_before = \<lparr>gpbcon = 0, gpbdat = 0, gpccon = 0, gpcup = 0, gpdcon = 0, gpdup = 0, gpgcon = 0\<rparr>,
     regs_before = \<lparr>lcdcon1 = 0, lcdcon2 = 0, lcdcon3 = 0, lcdcon4 = 0, lcdcon5 = 0, lcdsaddr1 = 0,
       lcdsaddr2 = 0, lcdsaddr3 = 0, tpal = 0\<rparr>\<rparr>"

theorem lcd_ledger_witness:
  "\<exists>es g l info. mylcd_init lcd_env0 = Inr (- ENOMEM, es, g, l, info) \<and>
     ledger es = Some ({#FbInfo, Clk, ClkOn, MemRegion#} + mset (map Iomap [0..<5]))"
proof -
  obtain es g l info where i: "mylcd_init lcd_env0 = Inr (- ENOMEM, es, g, l, info)"
    by (auto simp: mylcd_init_def lcd_env0_def Let_def)
  from lcd_ledger [OF i] show ?thesis using i by auto
qed

text \<open>The backlight pin is off while the controller is set up, on after a successful initialisation and
  off after the exit; the other pins of its port keep their values throughout.\<close>
theorem lcd_backlight:
  assumes "mylcd_init env = Inr (ret, es, g, l, info)"
  shows "(bit (gpbdat g) 0 \<longleftrightarrow> ret = 0) \<and> \<not> bit (gpbdat (fst (mylcd_exit g))) 0 \<and>
    (\<forall>k > 0. bit (gpbdat g) k = bit (gpbdat (pins_before env)) k \<and>
      bit (gpbdat (fst (mylcd_exit g))) k = bit (gpbdat (pins_before env)) k)"
proof -
  have off: "bit (x AND NOT 1) k \<longleftrightarrow> bit x k \<and> k \<noteq> 0" and on: "bit (x OR 1) k \<longleftrightarrow> bit x k \<or> k = 0" for x :: u32 and k
    using bit_imp_le_length [of x k]
    by (simp_all only: bit_and_iff bit_or_iff bit_not_iff bit_1_iff) auto
  have cases: "gpbdat g = gpbdat (pins_before env) AND NOT 1 \<and> ret \<noteq> 0 \<or>
      gpbdat g = (gpbdat (pins_before env) AND NOT 1) OR 1 \<and> ret = 0"
    using assms
    by (auto simp: mylcd_init_def setup_pins_def Let_def split: if_splits option.splits)
  have "(- 2 :: u32) = NOT 1" by simp
  then have off': "bit (x AND - 2) k \<longleftrightarrow> bit x k \<and> k \<noteq> 0" for x :: u32 and k using off by metis
  show ?thesis using cases by (auto simp: off' on mylcd_exit_def)
qed

theorem lcd_backlight_witness:
  "\<exists>ret es g l info. mylcd_init lcd_env0 = Inr (ret, es, g, l, info) \<and> ret \<noteq> 0 \<and> \<not> bit (gpbdat g) 0"
proof -
  obtain es g l info where i: "mylcd_init lcd_env0 = Inr (- ENOMEM, es, g, l, info)"
    by (auto simp: mylcd_init_def lcd_env0_def Let_def)
  from lcd_backlight [OF i] show ?thesis using i by auto
qed

end
