(* ===== verification/Vnet.thy ===== *)
theory Vnet
  imports Kernel
begin

text \<open>
  The virtual network interface, \<open>vnet/vnet.c\<close>: it answers pings itself. A packet is the memory
  from \<open>skb->data\<close> on and the length \<open>skb->len\<close>; \<open>users\<close> counts the references to it. The
  kernel's \<open>ip_fast_csum\<close> is a parameter, a function from the header bytes to the two bytes
  it stores.
\<close>

section \<open>The driver\<close>

record skb =
  sk_data :: "u8 list"
  sk_len :: nat
  users :: nat

record vnet =
  rx_packets :: u32
  rx_bytes :: u32
  tx_packets :: u32
  tx_bytes :: u32
  stopped :: bool
  received :: "u8 list list"

definition ETH_ALEN :: nat where "ETH_ALEN = 6"
definition ETH_HLEN :: nat where "ETH_HLEN = 14"
definition IP_HLEN :: nat where "IP_HLEN = 20"

text \<open>Offsets of the fields of \<open>struct iphdr\<close>; \<open>ihl\<close> is the low half of its first byte.\<close>

definition IP_CHECK :: nat where "IP_CHECK = 10"
definition IP_SADDR :: nat where "IP_SADDR = 12"
definition IP_DADDR :: nat where "IP_DADDR = 16"

lemmas vnet_offsets = ETH_ALEN_def ETH_HLEN_def IP_HLEN_def IP_CHECK_def IP_SADDR_def IP_DADDR_def

definition swap_ranges :: "nat \<Rightarrow> nat \<Rightarrow> nat \<Rightarrow> u8 list \<Rightarrow> fault + u8 list" where
  "swap_ranges a b n mem =
     ebind (load mem a n) (\<lambda>tmp.
     ebind (load mem b n) (\<lambda>other.
     ebind (store mem a other) (\<lambda>mem.
     store mem b tmp)))"

text \<open>The changes to the packet.\<close>

definition reply_packet :: "(u8 list \<Rightarrow> u8 \<times> u8) \<Rightarrow> u8 list \<Rightarrow> fault + u8 list" where
  "reply_packet csum mem =
     ebind (swap_ranges 0 ETH_ALEN ETH_ALEN mem) (\<lambda>mem.
     ebind (swap_ranges (ETH_HLEN + IP_SADDR) (ETH_HLEN + IP_DADDR) 4 mem) (\<lambda>mem.
     ebind (put mem (ETH_HLEN + IP_HLEN) 0) (\<lambda>mem.
     ebind (store mem (ETH_HLEN + IP_CHECK) [0, 0]) (\<lambda>mem.
     ebind (get mem ETH_HLEN) (\<lambda>vihl.
     ebind (load mem ETH_HLEN (4 * unat (vihl AND 0x0f))) (\<lambda>hdr.
     store mem (ETH_HLEN + IP_CHECK) [fst (csum hdr), snd (csum hdr)]))))))"

text \<open>\<open>alloc\<close>: whether \<open>dev_alloc_skb\<close> gets memory; its result is not looked at.\<close>

definition emulator_rx_packet ::
  "bool \<Rightarrow> (u8 list \<Rightarrow> u8 \<times> u8) \<Rightarrow> skb \<Rightarrow> vnet \<Rightarrow> fault + (skb \<times> vnet)" where
  "emulator_rx_packet alloc csum skb dev =
     ebind (reply_packet csum (sk_data skb)) (\<lambda>mem.
       let skb = skb\<lparr>sk_data := mem\<rparr> in
       if \<not> alloc then Inl NullDeref
       else ebind (load mem 0 (sk_len skb)) (\<lambda>rx.
         Inr (skb, dev\<lparr>rx_packets := rx_packets dev + 1, rx_bytes := rx_bytes dev + of_nat (sk_len skb),
           received := received dev @ [rx]\<rparr>)))"

text \<open>
  The length for the statistics is read after \<open>dev_kfree_skb\<close> has dropped a reference: if it was
  the last, from freed memory.
\<close>

definition vnet_send_packet ::
  "bool \<Rightarrow> (u8 list \<Rightarrow> u8 \<times> u8) \<Rightarrow> skb \<Rightarrow> vnet \<Rightarrow> fault + vnet" where
  "vnet_send_packet alloc csum skb dev =
     (let dev = dev\<lparr>stopped := True\<rparr> in
      ebind (get (sk_data skb) (ETH_HLEN + IP_HLEN)) (\<lambda>type.
      ebind (if type = 0x8 then emulator_rx_packet alloc csum skb dev else Inr (skb, dev)) (\<lambda>(skb, dev).
        let skb = skb\<lparr>users := users skb - 1\<rparr>;
            dev = dev\<lparr>stopped := False\<rparr>;
            dev = dev\<lparr>tx_packets := tx_packets dev + 1\<rparr>
        in if users skb = 0 then Inl UseAfterFree
           else Inr (dev\<lparr>tx_bytes := tx_bytes dev + of_nat (sk_len skb)\<rparr>))))"

datatype vnet_res = Netdev | NetdevReg

text \<open>The result of \<open>register_netdev\<close> is not looked at.\<close>

definition vnet_init :: "bool \<Rightarrow> bool \<Rightarrow> int \<times> vnet_res event list" where
  "vnet_init alloc_ok register_ok =
     (if \<not> alloc_ok then (- ENOMEM, [])
      else (0, Acq Netdev # (if register_ok then [Acq NetdevReg] else [])))"

definition vnet_exit :: "vnet_res event list" where
  "vnet_exit = [Rel NetdevReg]"

section \<open>The reply\<close>

lemma swap_ranges_ok:
  assumes "a + n \<le> b" "b + n \<le> length mem"
  shows "\<exists>mem'. swap_ranges a b n mem = Inr mem' \<and> length mem' = length mem \<and>
    (\<forall>i < length mem. mem' ! i = (if a \<le> i \<and> i < a + n then mem ! (b + (i - a))
       else if b \<le> i \<and> i < b + n then mem ! (a + (i - b)) else mem ! i))"
proof -
  let ?m1 = "overwrite mem a (take n (drop b mem))"
  let ?m2 = "overwrite ?m1 b (take n (drop a mem))"
  have len: "length (take n (drop b mem)) = n" "length (take n (drop a mem)) = n" "length ?m1 = length mem"
    using assms by simp_all
  have "swap_ranges a b n mem = Inr ?m2"
    using assms len by (simp add: swap_ranges_def load_def store_def)
  moreover have "?m2 ! i = (if a \<le> i \<and> i < a + n then mem ! (b + (i - a))
      else if b \<le> i \<and> i < b + n then mem ! (a + (i - b)) else mem ! i)" if "i < length mem" for i
    using assms len that by (auto simp: nth_overwrite)
  moreover have "length ?m2 = length mem" using assms len by simp
  ultimately show ?thesis by blast
qed

text \<open>
  The reply to \<open>mem\<close>, byte by byte: the hardware and IP addresses are exchanged, the type is 0, the
  checksum is that of the header of the reply with the field cleared, all else is kept.
\<close>

definition reply_byte :: "u8 list \<Rightarrow> nat \<Rightarrow> u8" where
  "reply_byte mem i =
     (if i < 6 then mem ! (i + 6) else if i < 12 then mem ! (i - 6)
      else if 24 \<le> i \<and> i < 26 then 0
      else if 26 \<le> i \<and> i < 30 then mem ! (i + 4) else if 30 \<le> i \<and> i < 34 then mem ! (i - 4)
      else if i = 34 then 0 else mem ! i)"

definition cleared_reply :: "u8 list \<Rightarrow> u8 list" where
  "cleared_reply mem = map (reply_byte mem) [0..<length mem]"

definition reply_header :: "u8 list \<Rightarrow> u8 list" where
  "reply_header mem = take (4 * unat (mem ! 14 AND 0x0f)) (drop 14 (cleared_reply mem))"

lemma reply_packet_ok:
  assumes "35 \<le> length mem" "14 + 4 * unat (mem ! 14 AND 0x0f) \<le> length mem"
  shows "reply_packet csum mem =
    Inr ((cleared_reply mem)[24 := fst (csum (reply_header mem)), 25 := snd (csum (reply_header mem))])"
proof -
  obtain m1 where m1: "swap_ranges 0 6 6 mem = Inr m1" "length m1 = length mem"
      "\<forall>i < length mem. m1 ! i = (if i < 6 then mem ! (6 + i) else if 6 \<le> i \<and> i < 12 then mem ! (i - 6) else mem ! i)"
    using swap_ranges_ok [of 0 6 6 mem] assms by auto
  obtain m2 where m2: "swap_ranges 26 30 4 m1 = Inr m2" "length m2 = length mem"
      "\<forall>i < length mem. m2 ! i = (if 26 \<le> i \<and> i < 30 then m1 ! (30 + (i - 26))
        else if 30 \<le> i \<and> i < 34 then m1 ! (26 + (i - 30)) else m1 ! i)"
    using swap_ranges_ok [of 26 4 30 m1] m1(2) assms by auto
  have z: "[0, 0 :: u8] ! j = 0" if "j < 2" for j using that by (cases j) auto
  have c: "overwrite (m2[34 := 0]) 24 [0, 0] = cleared_reply mem"
    by (rule nth_equalityI)
      (use assms m1(2,3) m2(2,3) in \<open>auto simp: cleared_reply_def reply_byte_def nth_overwrite nth_list_update add.commute z\<close>)
  have len: "length (cleared_reply mem) = length mem" by (simp add: cleared_reply_def)
  have "cleared_reply mem ! 14 = mem ! 14" using assms by (simp add: cleared_reply_def reply_byte_def)
  then have hdr: "load (cleared_reply mem) 14 (4 * unat (cleared_reply mem ! 14 AND 0x0f)) = Inr (reply_header mem)"
    using assms len by (simp add: load_def reply_header_def)
  have set2: "overwrite xs 24 [x, y] = xs[24 := x, 25 := y]" if "26 \<le> length xs" for xs :: "u8 list" and x y
    by (rule nth_equalityI) (use that in \<open>auto simp: nth_overwrite nth_list_update nth_Cons' less_Suc_eq\<close>)
  have "ebind (put m2 34 0) (\<lambda>mem. store mem 24 [0, 0]) = Inr (cleared_reply mem)"
    using assms m2(2) c by (simp add: store_def)
  then show ?thesis
    using assms m1 m2 hdr len set2 c
    by (simp add: reply_packet_def vnet_offsets store_def)
qed

text \<open>C12: A packet whose 35th byte is 8 (an echo request, if it is ICMP with a plain header: the protocol
  is not looked at) is answered: the packet received has the same length, the two hardware
  addresses and the two IP addresses exchanged, the type 0, the checksum that \<open>ip_fast_csum\<close> computes
  over the new header with its field cleared, and every other byte unchanged. The counters
  grow by one packet each and the queue runs again. A caller that does not hold a second
  reference gets the length from freed memory.\<close>
theorem vnet_answers_ping:
  assumes "sk_len skb = length (sk_data skb)" "sk_data skb ! 34 = 8" "35 \<le> length (sk_data skb)"
    and "14 + 4 * unat (sk_data skb ! 14 AND 0x0f) \<le> length (sk_data skb)" "0 < users skb"
  shows "if users skb = 1 then vnet_send_packet True csum skb dev = Inl UseAfterFree
    else \<exists>dev'. vnet_send_packet True csum skb dev = Inr dev' \<and> \<not> stopped dev' \<and>
      received dev' = received dev @ [(cleared_reply (sk_data skb))
        [24 := fst (csum (reply_header (sk_data skb))), 25 := snd (csum (reply_header (sk_data skb)))]] \<and>
      rx_packets dev' = rx_packets dev + 1 \<and> tx_packets dev' = tx_packets dev + 1 \<and>
      rx_bytes dev' = rx_bytes dev + of_nat (sk_len skb) \<and> tx_bytes dev' = tx_bytes dev + of_nat (sk_len skb)"
proof -
  let ?r = "(cleared_reply (sk_data skb))
    [24 := fst (csum (reply_header (sk_data skb))), 25 := snd (csum (reply_header (sk_data skb)))]"
  have "load ?r 0 (sk_len skb) = Inr ?r" using assms(1) by (simp add: load_def cleared_reply_def)
  then show ?thesis
    using assms reply_packet_ok [OF assms(3,4), of csum]
    by (auto simp: vnet_send_packet_def emulator_rx_packet_def vnet_offsets Let_def)
qed

definition ping :: "u8 list" where
  "ping = map of_nat [0..<14] @ [0x45] @ replicate 11 0 @ [10, 0, 0, 1, 10, 0, 0, 2] @ [8, 0, 7]"

theorem vnet_answers_ping_witness:
  "\<exists>dev'. vnet_send_packet True (\<lambda>_. (0xab, 0xcd)) \<lparr>sk_data = ping, sk_len = 37, users = 2\<rparr>
       \<lparr>rx_packets = 0, rx_bytes = 0, tx_packets = 0, tx_bytes = 0, stopped = False, received = []\<rparr> = Inr dev' \<and>
     tx_bytes dev' = 37"
proof -
  have "length ping = 37" "ping ! 34 = 8" "ping ! 14 = 0x45" by (simp_all add: ping_def nth_append)
  then show ?thesis
    using vnet_answers_ping [of "\<lparr>sk_data = ping, sk_len = 37, users = 2\<rparr>" "\<lambda>_. (0xab, 0xcd)"
        "\<lparr>rx_packets = 0, rx_bytes = 0, tx_packets = 0, tx_bytes = 0, stopped = False, received = []\<rparr>"]
    by auto
qed

text \<open>A packet of fewer than 35 bytes is read past its end before anything is known of it.\<close>
theorem short_packet_overreads:
  assumes "length (sk_data skb) < 35"
  shows "vnet_send_packet alloc csum skb dev = Inl OutOfBounds"
  using assms by (simp add: vnet_send_packet_def get_def vnet_offsets Let_def)

theorem short_packet_overreads_witness:
  "\<forall>dev. vnet_send_packet True (\<lambda>_. (0, 0)) \<lparr>sk_data = replicate 34 8, sk_len = 34, users = 2\<rparr> dev = Inl OutOfBounds"
  by (rule allI, rule short_packet_overreads) simp

text \<open>Unloading never frees the device that was allocated, and unregisters one whose registration had
  failed.\<close>
theorem vnet_leaks_device:
  "ledger (snd (vnet_init True register_ok) @ vnet_exit) = (if register_ok then Some {#Netdev#} else None)"
  by (simp add: vnet_init_def vnet_exit_def ledger_def)

end
