(* ===== verification/Rw_File.thy ===== *)
theory Rw_File
  imports Kernel
begin

text \<open>
  The test program of the EEPROM, \<open>i2c/dev_drv/rw_file.c\<close>: read a number of bytes from a file, or
  write a string to it. The results of the system calls and of \<open>atoi\<close> are parameters.
\<close>

datatype rw_res = Mem | Fd
datatype rw_call = Read int | Write string int

record rw_env =
  atoi :: "string \<Rightarrow> int"
  malloc_ok :: bool
  open_ret :: int
  read_ret :: int
  write_ret :: int

text \<open>
  From \<open>open\<close> on, with the calls that free the buffer: return value, resources, and the transfer
  asked for. The bytes read are printed from the buffer of \<open>len\<close> bytes.
\<close>

definition rw_file :: "rw_env \<Rightarrow> bool \<Rightarrow> string \<Rightarrow> int \<Rightarrow> rw_res event list \<Rightarrow>
    fault + (int \<times> rw_res event list \<times> rw_call list)" where
  "rw_file env reading arg len mem_free =
     (if open_ret env < 0 then Inr (- 1, mem_free, [])
      else if reading then
        (if read_ret env < 0 then Inr (read_ret env, [Acq Fd, Rel Fd] @ mem_free, [Read len])
         else if len < read_ret env then Inl OutOfBounds
         else Inr (0, [Acq Fd, Rel Fd] @ mem_free, [Read len]))
      else
        (let len = int (length arg) + 1 in
         if write_ret env < 0 then Inr (write_ret env, [Acq Fd, Rel Fd] @ mem_free, [Write arg len])
         else Inr (0, [Acq Fd, Rel Fd] @ mem_free, [Write arg len])))"

definition rw_main :: "rw_env \<Rightarrow> string list \<Rightarrow> fault + (int \<times> rw_res event list \<times> rw_call list)" where
  "rw_main env argv =
     (if length argv \<noteq> 4 \<or> (argv ! 2 \<noteq> ''r'' \<and> argv ! 2 \<noteq> ''w'') then Inr (- 1, [], [])
      else if hd (argv ! 2) = CHR ''r'' then
        (let len = atoi env (argv ! 3) in
         if len = 0 then Inr (0, [], [])
         else if \<not> malloc_ok env then Inr (- 1, [], [])
         else ebind (rw_file env True (argv ! 3) len [Rel Mem]) (\<lambda>(ret, es, calls).
           Inr (ret, Acq Mem # es, calls)))
      else rw_file env False (argv ! 3) 0 [])"

text \<open>A read returns no more bytes than it was asked for.\<close>

definition rw_valid :: "rw_env \<Rightarrow> string list \<Rightarrow> bool" where
  "rw_valid env argv \<longleftrightarrow> length argv = 4 \<longrightarrow> read_ret env \<le> max 0 (atoi env (argv ! 3)) \<and>
     (0 \<le> atoi env (argv ! 3) \<or> \<not> malloc_ok env)"

definition rw_start :: "rw_env \<times> string list \<Rightarrow> int \<times> rw_res event list" where
  "rw_start e = (case rw_main (fst e) (snd e) of Inl _ \<Rightarrow> (- 1, []) | Inr (ret, es, _) \<Rightarrow> (ret, es))"

lemma rw_main_cases:
  assumes "rw_valid env argv"
  shows "\<exists>ret es calls. rw_main env argv = Inr (ret, es, calls) \<and> ledger es = Some {#} \<and> length calls \<le> 1 \<and>
    (ret = 0 \<longrightarrow> calls = [] \<longrightarrow> length argv = 4 \<and> argv ! 2 = ''r'' \<and> atoi env (argv ! 3) = 0)"
  using assms
  by (auto simp: rw_main_def rw_file_def rw_valid_def ledger_def Let_def max_def split: if_splits)

interpretation rw: lifecycle rw_start "\<lambda>_. []" "\<lambda>e. rw_valid (fst e) (snd e)"
proof
  fix e :: "rw_env \<times> string list"
  assume v: "rw_valid (fst e) (snd e)"
  obtain ret es calls where "rw_main (fst e) (snd e) = Inr (ret, es, calls)" "ledger es = Some {#}"
    using rw_main_cases [OF v] by blast
  then have l: "ledger (snd (rw_start e)) = Some {#}" by (simp add: rw_start_def)
  then show "ledger (snd (rw_start e)) = Some {#}" .
  from l show "ledger (snd (rw_start e) @ []) = Some {#}" by simp
qed

text \<open>The program never reads outside its buffer, closes the file and frees the buffer on every path,
  makes at most one transfer, and reports success without a transfer only when it was asked to
  read 0 bytes.\<close>
theorem rw_main_result:
  assumes "rw_valid env argv"
  shows "\<exists>ret es calls. rw_main env argv = Inr (ret, es, calls) \<and> ledger es = Some {#} \<and> length calls \<le> 1 \<and>
    (ret = 0 \<longrightarrow> calls = [] \<longrightarrow> length argv = 4 \<and> argv ! 2 = ''r'' \<and> atoi env (argv ! 3) = 0)"
  using assms by (rule rw_main_cases)

theorem rw_main_result_witness:
  "\<exists>ret es calls. rw_main \<lparr>atoi = (\<lambda>_. 5), malloc_ok = True, open_ret = 3, read_ret = 5, write_ret = 0\<rparr>
      [''rw'', ''f'', ''r'', ''5''] = Inr (ret, es, calls) \<and> ledger es = Some {#}"
  using rw_main_result [of "\<lparr>atoi = (\<lambda>_. 5), malloc_ok = True, open_ret = 3, read_ret = 5, write_ret = 0\<rparr>"
      "[''rw'', ''f'', ''r'', ''5'']"] by (auto simp: rw_valid_def)

end
